theory Spec2Isabelle
  imports
    Complex_Main
    "HOL-Library.Word"
    "HOL-Library.Sublist"
    "HOL-Library.Char_ord"
    "HOL-Library.List_Lexorder"
begin

section \<open>The sales dashboard of \<open>streamlit_dann_app.py\<close>\<close>

text \<open>
  The program is one script. It loads a table (an uploaded CSV file or a built-in sample),
  reads two selections from the sidebar, filters the table by them, exports the filtered
  table as CSV, and computes four key figures and a per-category total. All data handling is
  done by calls into pandas; the definitions below give each call the script makes the
  meaning it has in pandas 2.x, on tables whose columns have dtype \<open>int64\<close> or hold
  Python strings (dtype \<open>object\<close>). These are the dtypes of the built-in sample and of
  every CSV file of integers and text. Columns of dtype \<open>float64\<close> or \<open>bool\<close>
  and missing values are outside the model. Strings are sequences of bytes (UTF-8); the
  row labels of a table (its index) are not modelled, since the script never reads them.
  Rendering (Streamlit widgets, Matplotlib charts) is not modelled.
\<close>

subsection \<open>Tables\<close>

type_synonym int64 = "64 word"

text \<open>A value of a cell, as \<open>Series.unique().tolist()\<close> or a row hands it out.\<close>

datatype cell = I int64 | S string

text \<open>A column (a pandas Series without its index) carries its dtype.\<close>

datatype column = IntCol "int64 list" | StrCol "string list"

text \<open>
  A DataFrame is the ordered list of its named columns, the way
  \<open>pd.DataFrame({"Hari": [...], ...})\<close> builds it.
\<close>

type_synonym dataframe = "(string \<times> column) list"

text \<open>
  What the script can raise. \<open>KeyError\<close> carries the name of the column that was
  looked up; \<open>EmptyDataError\<close> and \<open>ParserError\<close> are the failures of
  \<open>pd.read_csv\<close>; \<open>Unsupported\<close> marks an upload whose table is outside the
  model (see \<open>read_csv\<close>), it is not an exception of the program.
\<close>

datatype error = KeyError string | TypeError | EmptyDataError | ParserError | Unsupported

text \<open>
  A \<open>float64\<close> result. The model keeps the exact quotient that the float rounds, and
  not-a-number as a value of its own.
\<close>

datatype float64 = NaN | Fin rat

fun cells :: "column \<Rightarrow> cell list" where
  "cells (IntCol xs) = map I xs"
| "cells (StrCol xs) = map S xs"

fun col_len :: "column \<Rightarrow> nat" where
  "col_len (IntCol xs) = length xs"
| "col_len (StrCol xs) = length xs"

text \<open>\<open>df.columns\<close>\<close>

definition columns :: "dataframe \<Rightarrow> string list" where
  "columns df = map fst df"

text \<open>\<open>len(df)\<close>\<close>

fun nrows :: "dataframe \<Rightarrow> nat" where
  "nrows [] = 0"
| "nrows ((n, c) # rest) = col_len c"

text \<open>Every DataFrame has distinct column names here, and columns of one length.\<close>

definition wf_df :: "dataframe \<Rightarrow> bool" where
  "wf_df df \<longleftrightarrow> distinct (columns df) \<and> list_all (\<lambda>(n, c). col_len c = nrows df) df"

text \<open>\<open>df[name]\<close>: the column, or \<open>KeyError\<close>.\<close>

definition getitem :: "dataframe \<Rightarrow> string \<Rightarrow> error + column" where
  "getitem df name = (case map_of df name of None \<Rightarrow> Inl (KeyError name) | Some c \<Rightarrow> Inr c)"

text \<open>
  The rows of a table, each a list of (column name, value) in column order
  (\<open>df.to_dict("records")\<close>). The script never builds them; the properties of the
  filter are stated on them.
\<close>

type_synonym row = "(string \<times> cell) list"

fun rows_of :: "dataframe \<Rightarrow> row list" where
  "rows_of [] = []"
| "rows_of [(n, c)] = map (\<lambda>v. [(n, v)]) (cells c)"
| "rows_of ((n, c) # rest) = map2 (\<lambda>v r. (n, v) # r) (cells c) (rows_of rest)"

subsection \<open>The built-in sample (lines 38 to 46)\<close>

definition load_sample_data :: dataframe where
  "load_sample_data =
     [(''Hari'', StrCol [''Senin'', ''Selasa'', ''Rabu'', ''Kamis'', ''Jumat'', ''Sabtu'', ''Minggu'']),
      (''Kategori'', StrCol [''Makanan'', ''Minuman'', ''Makanan'', ''Minuman'', ''Makanan'', ''Minuman'', ''Makanan'']),
      (''Penjualan'', IntCol [120, 150, 90, 170, 200, 220, 180]),
      (''Pengunjung'', IntCol [50, 60, 30, 80, 90, 120, 100])]"

subsection \<open>Selecting rows (lines 59 to 71)\<close>

text \<open>
  \<open>Series.unique()\<close>: the distinct values in order of first appearance.
\<close>

fun unique_from :: "'a list \<Rightarrow> 'a list \<Rightarrow> 'a list" where
  "unique_from seen [] = seen"
| "unique_from seen (x # xs) =
     (if x \<in> set seen then unique_from seen xs else unique_from (seen @ [x]) xs)"

definition unique :: "column \<Rightarrow> cell list" where
  "unique c = unique_from [] (cells c)"

text \<open>\<open>Series.isin(values)\<close>: one boolean per row.\<close>

definition isin :: "column \<Rightarrow> cell list \<Rightarrow> bool list" where
  "isin c vals = map (\<lambda>v. v \<in> set vals) (cells c)"

text \<open>
  Indexing by a boolean mask keeps the positions where the mask is true. The mask always
  comes from a column of the same table, so it has the table's length.
\<close>

fun take_mask :: "bool list \<Rightarrow> 'a list \<Rightarrow> 'a list" where
  "take_mask (b # bs) (x # xs) = (if b then x # take_mask bs xs else take_mask bs xs)"
| "take_mask _ _ = []"

fun col_mask :: "bool list \<Rightarrow> column \<Rightarrow> column" where
  "col_mask m (IntCol xs) = IntCol (take_mask m xs)"
| "col_mask m (StrCol xs) = StrCol (take_mask m xs)"

text \<open>\<open>df[mask]\<close>\<close>

definition loc_mask :: "dataframe \<Rightarrow> bool list \<Rightarrow> dataframe" where
  "loc_mask df m = map (\<lambda>(n, c). (n, col_mask m c)) df"

text \<open>
  Lines 69 to 71:
  \<^verbatim>\<open>
  filtered_df = df[df["Hari"].isin(selected_hari)]
  if "Kategori" in df.columns:
      filtered_df = filtered_df[filtered_df["Kategori"].isin(selected_kategori)]
  \<close>
\<close>

definition apply_filter :: "dataframe \<Rightarrow> cell list \<Rightarrow> cell list \<Rightarrow> error + dataframe" where
  "apply_filter df selected_hari selected_kategori =
     (case getitem df ''Hari'' of
        Inl e \<Rightarrow> Inl e
      | Inr hari \<Rightarrow>
          let filtered_df = loc_mask df (isin hari selected_hari) in
          if ''Kategori'' \<in> set (columns df) then
            (case getitem filtered_df ''Kategori'' of
               Inl e \<Rightarrow> Inl e
             | Inr kategori \<Rightarrow> Inr (loc_mask filtered_df (isin kategori selected_kategori)))
          else Inr filtered_df)"

subsection \<open>The CSV export (line 76)\<close>

text \<open>\<open>str(n)\<close> for an integer: decimal digits, with a minus sign when negative.\<close>

fun str_nat :: "nat \<Rightarrow> string" where
  "str_nat n = (if n < 10 then [char_of (48 + n)] else str_nat (n div 10) @ [char_of (48 + n mod 10)])"

declare str_nat.simps [simp del]

definition str_int :: "int \<Rightarrow> string" where
  "str_int i = (if i < 0 then CHR ''-'' # str_nat (nat (- i)) else str_nat (nat i))"

fun str_cell :: "cell \<Rightarrow> string" where
  "str_cell (I w) = str_int (sint w)"
| "str_cell (S s) = s"

text \<open>
  \<open>to_csv\<close> writes through Python's \<open>csv.writer\<close> with the default dialect:
  comma as delimiter, \<open>QUOTE_MINIMAL\<close>, the double quote as quote character, doubled
  inside a quoted field, and (on the Linux host of a Streamlit app) a line feed as line
  terminator. A field is quoted when it holds a comma, a double quote, a line feed or a
  carriage return (Python 3.13), and a row that is one empty field is written as two quotes.
\<close>

definition needs_quote :: "string \<Rightarrow> bool" where
  "needs_quote s = list_ex (\<lambda>c. c = CHR '','' \<or> c = CHR 0x22 \<or> c = CHR 0x0A \<or> c = CHR 0x0D) s"

definition quote_field :: "string \<Rightarrow> string" where
  "quote_field s =
     (if needs_quote s
      then CHR 0x22 # concat (map (\<lambda>c. if c = CHR 0x22 then [c, c] else [c]) s) @ [CHR 0x22]
      else s)"

fun join_comma :: "string list \<Rightarrow> string" where
  "join_comma [] = []"
| "join_comma [f] = f"
| "join_comma (f # fs) = f @ CHR '','' # join_comma fs"

definition csv_line :: "string list \<Rightarrow> string" where
  "csv_line fields =
     (if fields = [[]] then [CHR 0x22, CHR 0x22] else join_comma (map quote_field fields))
     @ [CHR 0x0A]"

text \<open>\<open>df.to_csv(index=False).encode("utf-8")\<close>: the header line, then one line per row.\<close>

definition to_csv :: "dataframe \<Rightarrow> string" where
  "to_csv df =
     csv_line (columns df) @ concat (map (\<lambda>r. csv_line (map (\<lambda>(n, v). str_cell v) r)) (rows_of df))"

subsection \<open>Key figures (lines 89 to 92)\<close>

text \<open>
  \<open>Series.sum()\<close>. On \<open>int64\<close> the sum is accumulated in \<open>int64\<close> and wraps around
  silently; on strings \<open>+\<close> is concatenation, and the sum of no values is the integer 0.
\<close>

fun series_sum :: "column \<Rightarrow> cell" where
  "series_sum (IntCol xs) = I (sum_list xs)"
| "series_sum (StrCol []) = I 0"
| "series_sum (StrCol (x # xs)) = S (concat (x # xs))"

text \<open>
  \<open>Series.mean()\<close>. On \<open>int64\<close> the values are summed as \<open>float64\<close> (so nothing
  wraps) and divided by their number; the mean of no values is not-a-number, with no
  exception. The mean of strings raises \<open>TypeError\<close>.
\<close>

fun series_mean :: "column \<Rightarrow> error + float64" where
  "series_mean (IntCol xs) =
     Inr (if xs = [] then NaN else Fin (of_int (sum_list (map sint xs)) / of_nat (length xs)))"
| "series_mean (StrCol []) = Inr NaN"
| "series_mean (StrCol (x # xs)) = Inl TypeError"

record kpi =
  total_sales :: cell
  total_visitors :: cell
  avg_sales :: float64
  avg_visitors :: float64

text \<open>
  \<^verbatim>\<open>
  total_sales = filtered_df["Penjualan"].sum()
  total_visitors = filtered_df["Pengunjung"].sum()
  avg_sales = filtered_df["Penjualan"].mean()
  avg_visitors = filtered_df["Pengunjung"].mean()
  \<close>
  in this order, so a missing column is reported before a column of the wrong type.
\<close>

definition kpi_section :: "dataframe \<Rightarrow> error + kpi" where
  "kpi_section filtered_df =
     (case getitem filtered_df ''Penjualan'' of
        Inl e \<Rightarrow> Inl e
      | Inr penjualan \<Rightarrow>
     (case getitem filtered_df ''Pengunjung'' of
        Inl e \<Rightarrow> Inl e
      | Inr pengunjung \<Rightarrow>
     (case series_mean penjualan of
        Inl e \<Rightarrow> Inl e
      | Inr avg_p \<Rightarrow>
     (case series_mean pengunjung of
        Inl e \<Rightarrow> Inl e
      | Inr avg_v \<Rightarrow>
          Inr \<lparr>total_sales = series_sum penjualan, total_visitors = series_sum pengunjung,
               avg_sales = avg_p, avg_visitors = avg_v\<rparr>))))"

subsection \<open>Totals per category (line 138)\<close>

text \<open>
  \<open>groupby\<close> has \<open>sort=True\<close> unless told otherwise: the group keys are the distinct
  values of the key column in ascending order (integers by value, strings by code point,
  which on UTF-8 is the order of the bytes).
\<close>

fun group_keys :: "column \<Rightarrow> cell list" where
  "group_keys (IntCol xs) = map I (sort_key sint (remdups xs))"
| "group_keys (StrCol xs) = map S (sort (remdups xs))"

text \<open>\<open>df.groupby(key)[val].sum()\<close>: a Series, as the list of its (label, value) pairs.\<close>

definition groupby_sum :: "dataframe \<Rightarrow> string \<Rightarrow> string \<Rightarrow> error + (cell \<times> cell) list" where
  "groupby_sum df key val =
     (case getitem df key of
        Inl e \<Rightarrow> Inl e
      | Inr k \<Rightarrow>
     (case getitem df val of
        Inl e \<Rightarrow> Inl e
      | Inr v \<Rightarrow>
          Inr (map (\<lambda>g. (g, series_sum (col_mask (map (\<lambda>x. x = g) (cells k)) v))) (group_keys k))))"

subsection \<open>Reading an upload (line 50)\<close>

text \<open>
  \<open>pd.read_csv\<close> with its defaults, on the part of its input language whose result
  is a table of this model: printable ASCII without double quotes, lines ended by a line
  feed, every record with as many fields as the header, header names distinct and not
  empty, and every column either all integers of the \<open>int64\<close> range or text with no
  missing-value marker. Anything else that pandas would read into a table of another kind
  is answered \<open>Unsupported\<close>. Two failures of pandas are modelled: no line to read the
  header from (\<open>EmptyDataError\<close>), and a record after the first with more fields than
  the header (\<open>ParserError\<close>). Where the columns are built every record has as many
  fields as the header, so each \<open>r ! j\<close> below is in range.
\<close>

definition plain_char :: "char \<Rightarrow> bool" where
  "plain_char c \<longleftrightarrow>
     c = CHR 0x0A \<or> ((32::nat) \<le> of_char c \<and> of_char c \<le> (126::nat) \<and> c \<noteq> CHR 0x22)"

text \<open>The tokenizer: the pieces between the occurrences of a separator.\<close>

fun split_acc :: "char \<Rightarrow> string \<Rightarrow> string \<Rightarrow> string list" where
  "split_acc d cur [] = [cur]"
| "split_acc d cur (c # cs) =
     (if c = d then cur # split_acc d [] cs else split_acc d (cur @ [c]) cs)"

definition split_on :: "char \<Rightarrow> string \<Rightarrow> string list" where
  "split_on d s = split_acc d [] s"

definition is_digit :: "char \<Rightarrow> bool" where
  "is_digit c \<longleftrightarrow> (48::nat) \<le> of_char c \<and> of_char c \<le> (57::nat)"

definition is_alpha :: "char \<Rightarrow> bool" where
  "is_alpha c \<longleftrightarrow>
     ((65::nat) \<le> of_char c \<and> of_char c \<le> (90::nat)) \<or>
     ((97::nat) \<le> of_char c \<and> of_char c \<le> (122::nat))"

definition lower :: "char \<Rightarrow> char" where
  "lower c =
     (if (65::nat) \<le> of_char c \<and> of_char c \<le> (90::nat)
      then char_of (of_char c + (32::nat)) else c)"

definition digits_val :: "string \<Rightarrow> nat" where
  "digits_val ds = foldl (\<lambda>a c. 10 * a + (of_char c - 48)) 0 ds"

text \<open>An integer field: an optional sign and at least one digit.\<close>

definition parse_int :: "string \<Rightarrow> int option" where
  "parse_int s =
     (let ds = (case s of [] \<Rightarrow> [] | c # cs \<Rightarrow> if c = CHR ''-'' \<or> c = CHR ''+'' then cs else s) in
      if ds \<noteq> [] \<and> list_all is_digit ds
      then Some (case s of [] \<Rightarrow> 0
                 | c # cs \<Rightarrow> if c = CHR ''-'' then - int (digits_val ds) else int (digits_val ds))
      else None)"

definition parse_int64 :: "string \<Rightarrow> int64 option" where
  "parse_int64 s =
     (case parse_int s of
        None \<Rightarrow> None
      | Some v \<Rightarrow> if - (2 ^ 63) \<le> v \<and> v < 2 ^ 63 then Some (word_of_int v) else None)"

text \<open>The fields that \<open>read_csv\<close> reads as a missing value.\<close>

definition na_values :: "string list" where
  "na_values =
     [[], ''#N/A'', ''#N/A N/A'', ''#NA'', ''-1.#IND'', ''-1.#QNAN'', ''-NaN'', ''-nan'',
      ''1.#IND'', ''1.#QNAN'', ''<NA>'', ''N/A'', ''NA'', ''NULL'', ''NaN'', ''None'', ''n/a'',
      ''nan'', ''null'']"

text \<open>
  A field that can only be text: it starts with a letter and is none of the words that
  pandas reads as a boolean or as a float.
\<close>

definition is_text :: "string \<Rightarrow> bool" where
  "is_text s \<longleftrightarrow>
     (case s of [] \<Rightarrow> False | c # cs \<Rightarrow> is_alpha c) \<and>
     map lower s \<notin> set [''true'', ''false'', ''inf'', ''infinity'', ''nan''] \<and>
     s \<notin> set na_values"

text \<open>
  The dtype of a column: \<open>object\<close> when there is no record, \<open>int64\<close> when every field
  is an integer in range, strings when no field is a missing value and at least one can
  only be text.
\<close>

definition infer_column :: "string list \<Rightarrow> error + column" where
  "infer_column fs =
     (if fs = [] then Inr (StrCol [])
      else case those (map parse_int64 fs) of
        Some ws \<Rightarrow> Inr (IntCol ws)
      | None \<Rightarrow>
          if list_all (\<lambda>f. f \<notin> set na_values) fs \<and> list_ex is_text fs
          then Inr (StrCol fs) else Inl Unsupported)"

fun collect :: "(error + 'a) list \<Rightarrow> error + 'a list" where
  "collect [] = Inr []"
| "collect (Inl e # rs) = Inl e"
| "collect (Inr x # rs) = (case collect rs of Inl e \<Rightarrow> Inl e | Inr xs \<Rightarrow> Inr (x # xs))"

definition read_csv :: "string \<Rightarrow> error + dataframe" where
  "read_csv text =
     (if \<not> list_all plain_char text then Inl Unsupported
      else
        let lines = filter (\<lambda>l. l \<noteq> []) (split_on (CHR 0x0A) text) in
        if list_ex (list_all (\<lambda>c. c = CHR '' '')) lines then Inl Unsupported
        else case lines of
          [] \<Rightarrow> Inl EmptyDataError
        | header # body \<Rightarrow>
            let names = split_on (CHR '','') header;
                recs = map (split_on (CHR '','')) body;
                n = length names
            in
            if (case recs of [] \<Rightarrow> False
                | r # rs \<Rightarrow> length r \<le> n \<and> list_ex (\<lambda>r'. n < length r') rs)
            then Inl ParserError
            else if \<not> list_all (\<lambda>r. length r = n) recs \<or> \<not> distinct names \<or> [] \<in> set names
            then Inl Unsupported
            else
              (case collect (map (\<lambda>j. infer_column (map (\<lambda>r. r ! j) recs)) [0..<n]) of
                 Inl e \<Rightarrow> Inl e
               | Inr cols \<Rightarrow> Inr (zip names cols)))"

subsection \<open>Loading the data (lines 49 to 54)\<close>

text \<open>
  \<^verbatim>\<open>
  if uploaded_file:
      df = pd.read_csv(uploaded_file)
  else:
      df = load_sample_data()
  \<close>
  The uploader returns \<open>None\<close> or a file object, which is true whatever its content.
\<close>

definition load_data :: "string option \<Rightarrow> error + dataframe" where
  "load_data uploaded_file =
     (case uploaded_file of
        Some bytes \<Rightarrow> read_csv bytes
      | None \<Rightarrow> Inr load_sample_data)"

subsection \<open>One run of the script\<close>

text \<open>
  What one run computes from the loaded table and the two selections the sidebar returns:
  the options offered by the two selectors (their defaults as well), the filtered table,
  the bytes of the download, the key figures, and the per-category totals, which exist only
  when the table has a category column.
\<close>

record page =
  hari_list :: "cell list"
  kategori_list :: "cell list option"
  filtered_df :: dataframe
  csv :: string
  kpis :: kpi
  pie_df :: "(cell \<times> cell) list option"

text \<open>Lines 59 to 66: the options of the two selectors.\<close>

definition day_options :: "dataframe \<Rightarrow> error + cell list" where
  "day_options df = (case getitem df ''Hari'' of Inl e \<Rightarrow> Inl e | Inr hari \<Rightarrow> Inr (unique hari))"

definition category_options :: "dataframe \<Rightarrow> error + cell list option" where
  "category_options df =
     (if ''Kategori'' \<in> set (columns df)
      then (case getitem df ''Kategori'' of
              Inl e \<Rightarrow> Inl e | Inr kategori \<Rightarrow> Inr (Some (unique kategori)))
      else Inr None)"

text \<open>Lines 136 to 145.\<close>

definition pie_section :: "dataframe \<Rightarrow> dataframe \<Rightarrow> error + (cell \<times> cell) list option" where
  "pie_section df filtered =
     (if ''Kategori'' \<in> set (columns df)
      then (case groupby_sum filtered ''Kategori'' ''Penjualan'' of
              Inl e \<Rightarrow> Inl e | Inr totals \<Rightarrow> Inr (Some totals))
      else Inr None)"

definition dashboard :: "dataframe \<Rightarrow> cell list \<Rightarrow> cell list \<Rightarrow> error + page" where
  "dashboard df selected_hari selected_kategori =
     (case day_options df of
        Inl e \<Rightarrow> Inl e
      | Inr days \<Rightarrow>
     (case category_options df of
        Inl e \<Rightarrow> Inl e
      | Inr cats \<Rightarrow>
     (case apply_filter df selected_hari selected_kategori of
        Inl e \<Rightarrow> Inl e
      | Inr f \<Rightarrow>
     (case kpi_section f of
        Inl e \<Rightarrow> Inl e
      | Inr k \<Rightarrow>
     (case pie_section df f of
        Inl e \<Rightarrow> Inl e
      | Inr pie \<Rightarrow>
          Inr \<lparr>hari_list = days, kategori_list = cats, filtered_df = f, csv = to_csv f,
               kpis = k, pie_df = pie\<rparr>)))))"

text \<open>
  The selections the sidebar returns when the user touches nothing: every option
  (\<open>default=hari_list\<close>, \<open>default=kategori_list\<close>), and the empty list for the
  categories when the table has no such column (line 66).
\<close>

definition default_hari :: "dataframe \<Rightarrow> error + cell list" where
  "default_hari df = day_options df"

definition default_kategori :: "dataframe \<Rightarrow> error + cell list" where
  "default_kategori df =
     (case category_options df of
        Inl e \<Rightarrow> Inl e | Inr None \<Rightarrow> Inr [] | Inr (Some ks) \<Rightarrow> Inr ks)"

subsection \<open>The selection, in the words of the specification\<close>

text \<open>
  A row is kept iff its day value is a member of the selected days, and the category
  column is absent or its category value is a member of the selected categories.
\<close>

definition selected_row :: "cell list \<Rightarrow> cell list \<Rightarrow> row \<Rightarrow> bool" where
  "selected_row days cats r \<longleftrightarrow>
     (case map_of r ''Hari'' of None \<Rightarrow> False | Some d \<Rightarrow> d \<in> set days) \<and>
     (case map_of r ''Kategori'' of None \<Rightarrow> True | Some k \<Rightarrow> k \<in> set cats)"

subsection \<open>The whole script\<close>

text \<open>Load the data, then compute the page; the first exception ends the run.\<close>

definition script :: "string option \<Rightarrow> cell list \<Rightarrow> cell list \<Rightarrow> error + page" where
  "script uploaded_file selected_hari selected_kategori =
     (case load_data uploaded_file of
        Inl e \<Rightarrow> Inl e
      | Inr df \<Rightarrow> dashboard df selected_hari selected_kategori)"

text \<open>The exceptions that \<open>pd.read_csv\<close> raises on a file it cannot parse.\<close>

fun parse_failure :: "error \<Rightarrow> bool" where
  "parse_failure EmptyDataError = True"
| "parse_failure ParserError = True"
| "parse_failure _ = False"

subsection \<open>The summary, in the words of the specification\<close>

text \<open>The sum of a column of integers, as a number.\<close>

definition exact_sum :: "int64 list \<Rightarrow> int" where
  "exact_sum xs = sum_list (map sint xs)"




text \<open>Ascending order of group labels: integers by value, strings by code point.\<close>

fun cell_less :: "cell \<Rightarrow> cell \<Rightarrow> bool" where
  "cell_less (I a) (I b) = (sint a < sint b)"
| "cell_less (S a) (S b) = (a < b)"
| "cell_less _ _ = False"

text \<open>The values of one column in the rows where another column has a given value.\<close>

definition values_where :: "column \<Rightarrow> cell \<Rightarrow> 'a list \<Rightarrow> 'a list" where
  "values_where k g xs = map snd (filter (\<lambda>(c, x). c = g) (zip (cells k) xs))"


text \<open>
  The columns the script reads without asking whether they exist, in the order in which it
  reads them (lines 59, 89 and 90), and the first of them that a table lacks.
\<close>

definition required_columns :: "string list" where
  "required_columns = [''Hari'', ''Penjualan'', ''Pengunjung'']"

definition first_missing :: "dataframe \<Rightarrow> string option" where
  "first_missing df = find (\<lambda>c. c \<notin> set (columns df)) required_columns"

subsection \<open>Tables cut from the sample\<close>

text \<open>
  A field that the CSV writer leaves as it is and the reader takes as one field: not empty,
  printable, without comma, double quote, line feed or space.
\<close>

definition plain_field :: "string \<Rightarrow> bool" where
  "plain_field s \<longleftrightarrow>
     s \<noteq> [] \<and> list_all (\<lambda>c. plain_char c \<and> c \<noteq> CHR '','' \<and> c \<noteq> CHR 0x0A \<and> c \<noteq> CHR '' '') s"

text \<open>
  A table with the four columns of the sample, of the sample's dtypes, all of one length,
  and with values that occur in the sample: what filtering the sample can return.
\<close>

fun sample_columns :: "column list \<Rightarrow> bool" where
  "sample_columns [StrCol hs, StrCol ks, IntCol ps, IntCol vs] \<longleftrightarrow>
     length ks = length hs \<and> length ps = length hs \<and> length vs = length hs \<and>
     set hs \<subseteq> set [''Senin'', ''Selasa'', ''Rabu'', ''Kamis'', ''Jumat'', ''Sabtu'', ''Minggu''] \<and>
     set ks \<subseteq> set [''Makanan'', ''Minuman''] \<and>
     set ps \<subseteq> set [120, 150, 90, 170, 200, 220, 180] \<and>
     set vs \<subseteq> set [50, 60, 30, 80, 90, 120, 100]"
| "sample_columns _ \<longleftrightarrow> False"

definition sample_part :: "dataframe \<Rightarrow> bool" where
  "sample_part f \<longleftrightarrow>
     columns f = [''Hari'', ''Kategori'', ''Penjualan'', ''Pengunjung''] \<and> sample_columns (map snd f)"

subsection \<open>The script over a store of objects\<close>

text \<open>
  Python variables hold references. To say what a run does to the loaded table, the
  DataFrame objects are put in a store: a reference is a number, \<open>obj\<close> gives the
  object at a reference and \<open>next_ref\<close> is the first reference not yet in use. Indexing
  a DataFrame by a boolean mask builds a new object and leaves its operand alone; the
  other calls of the script (\<open>isin\<close>, \<open>unique\<close>, \<open>sum\<close>, \<open>mean\<close>,
  \<open>groupby\<close>, \<open>to_csv\<close>) only read.
\<close>

record store =
  obj :: "nat \<Rightarrow> dataframe"
  next_ref :: nat

definition new_object :: "dataframe \<Rightarrow> store \<Rightarrow> nat \<times> store" where
  "new_object d s = (next_ref s, s\<lparr>obj := (obj s)(next_ref s := d), next_ref := Suc (next_ref s)\<rparr>)"

text \<open>
  Lines 69 to 71 on references: \<open>df\<close> is the reference held by the variable \<open>df\<close>;
  the result is the reference that \<open>filtered_df\<close> holds in the end.
\<close>

definition exec_filter :: "store \<Rightarrow> nat \<Rightarrow> cell list \<Rightarrow> cell list \<Rightarrow> error + nat \<times> store" where
  "exec_filter s df selected_hari selected_kategori =
     (case getitem (obj s df) ''Hari'' of
        Inl e \<Rightarrow> Inl e
      | Inr hari \<Rightarrow>
          let (f1, s1) = new_object (loc_mask (obj s df) (isin hari selected_hari)) s in
          if ''Kategori'' \<in> set (columns (obj s1 df)) then
            (case getitem (obj s1 f1) ''Kategori'' of
               Inl e \<Rightarrow> Inl e
             | Inr kategori \<Rightarrow>
                 Inr (new_object (loc_mask (obj s1 f1) (isin kategori selected_kategori)) s1))
          else Inr (f1, s1))"

text \<open>Lines 59 to 145 on references: the page, and the store the run leaves behind.\<close>

definition exec_run :: "store \<Rightarrow> nat \<Rightarrow> cell list \<Rightarrow> cell list \<Rightarrow> error + page \<times> store" where
  "exec_run s df selected_hari selected_kategori =
     (case day_options (obj s df) of
        Inl e \<Rightarrow> Inl e
      | Inr days \<Rightarrow>
     (case category_options (obj s df) of
        Inl e \<Rightarrow> Inl e
      | Inr cats \<Rightarrow>
     (case exec_filter s df selected_hari selected_kategori of
        Inl e \<Rightarrow> Inl e
      | Inr (f, s') \<Rightarrow>
     (case kpi_section (obj s' f) of
        Inl e \<Rightarrow> Inl e
      | Inr k \<Rightarrow>
     (case pie_section (obj s' df) (obj s' f) of
        Inl e \<Rightarrow> Inl e
      | Inr pie \<Rightarrow>
          Inr (\<lparr>hari_list = days, kategori_list = cats, filtered_df = obj s' f,
                csv = to_csv (obj s' f), kpis = k, pie_df = pie\<rparr>, s'))))))"

text \<open>
  Lines 49 to 54 on references: \<open>pd.read_csv\<close> builds a new object, and
  \<open>load_sample_data\<close>, cached by \<open>st.cache_data\<close>, hands out a new copy of the
  sample on every call.
\<close>

definition exec_load :: "store \<Rightarrow> string option \<Rightarrow> error + nat \<times> store" where
  "exec_load s uploaded_file =
     (case load_data uploaded_file of Inl e \<Rightarrow> Inl e | Inr d \<Rightarrow> Inr (new_object d s))"

text \<open>One interaction: Streamlit runs the script from its first line.\<close>

definition exec_script :: "store \<Rightarrow> string option \<Rightarrow> cell list \<Rightarrow> cell list \<Rightarrow> error + page \<times> store" where
  "exec_script s uploaded_file selected_hari selected_kategori =
     (case exec_load s uploaded_file of
        Inl e \<Rightarrow> Inl e
      | Inr (df, s1) \<Rightarrow> exec_run s1 df selected_hari selected_kategori)"

section \<open>Properties\<close>

subsection \<open>The built-in sample\<close>

text \<open>
  C5. When no file is uploaded, the loader returns the built-in table: the columns Hari,
  Kategori, Penjualan, Pengunjung (day, category, sales count, visitor count) and exactly
  the seven rows Senin/Makanan/120/50, Selasa/Minuman/150/60, Rabu/Makanan/90/30,
  Kamis/Minuman/170/80, Jumat/Makanan/200/90, Sabtu/Minuman/220/120, Minggu/Makanan/180/100.
\<close>

theorem sample_when_no_upload:
  "load_data None = Inr load_sample_data \<and>
   columns load_sample_data = [''Hari'', ''Kategori'', ''Penjualan'', ''Pengunjung''] \<and>
   rows_of load_sample_data =
     [[(''Hari'', S ''Senin''), (''Kategori'', S ''Makanan''), (''Penjualan'', I 120), (''Pengunjung'', I 50)],
      [(''Hari'', S ''Selasa''), (''Kategori'', S ''Minuman''), (''Penjualan'', I 150), (''Pengunjung'', I 60)],
      [(''Hari'', S ''Rabu''), (''Kategori'', S ''Makanan''), (''Penjualan'', I 90), (''Pengunjung'', I 30)],
      [(''Hari'', S ''Kamis''), (''Kategori'', S ''Minuman''), (''Penjualan'', I 170), (''Pengunjung'', I 80)],
      [(''Hari'', S ''Jumat''), (''Kategori'', S ''Makanan''), (''Penjualan'', I 200), (''Pengunjung'', I 90)],
      [(''Hari'', S ''Sabtu''), (''Kategori'', S ''Minuman''), (''Penjualan'', I 220), (''Pengunjung'', I 120)],
      [(''Hari'', S ''Minggu''), (''Kategori'', S ''Makanan''), (''Penjualan'', I 180), (''Pengunjung'', I 100)]] \<and>
   length (rows_of load_sample_data) = 7"
  by (simp add: load_data_def load_sample_data_def columns_def)

subsection \<open>Masks, columns and rows\<close>

lemma take_mask_map: "take_mask m (map f xs) = map f (take_mask m xs)"
  by (induction m xs rule: take_mask.induct) auto

lemma take_mask_map2:
  "length xs = length ys \<Longrightarrow> take_mask m (map2 f xs ys) = map2 f (take_mask m xs) (take_mask m ys)"
  by (induction m xs arbitrary: ys rule: take_mask.induct) (auto simp: Suc_length_conv)

lemma length_take_mask:
  "length (take_mask m xs) = length (filter (\<lambda>b. b) (take (length xs) m))"
  by (induction m xs rule: take_mask.induct) auto

lemma take_mask_pred: "take_mask (map P xs) xs = filter P xs"
  by (induction xs) auto

lemma cells_col_mask: "cells (col_mask m c) = take_mask m (cells c)"
  by (cases c) (simp_all add: take_mask_map)

lemma length_cells: "length (cells c) = col_len c"
  by (cases c) simp_all

lemma length_rows_of:
  "wf_df df \<Longrightarrow> length (rows_of df) = nrows df"
proof (induction df rule: rows_of.induct)
  case 1 show ?case by simp
next
  case (2 n c) show ?case by (simp add: length_cells)
next
  case (3 n c p rest)
  obtain n' c' where p: "p = (n', c')" by (cases p)
  from 3(2) have "wf_df (p # rest)" and "col_len c' = col_len c"
    by (auto simp: wf_df_def columns_def p)
  with 3(1) show ?case by (simp add: p length_cells)
qed


lemma col_len_mask2: "col_len (col_mask m c) = length (filter (\<lambda>b. b) (take (col_len c) m))"
  by (cases c) (simp_all add: length_take_mask)

lemma nrows_loc_mask: "nrows (loc_mask df m) = length (filter (\<lambda>b. b) (take (nrows df) m))"
  by (cases df) (auto simp: loc_mask_def col_len_mask2)

lemma wf_loc_mask: "wf_df df \<Longrightarrow> wf_df (loc_mask df m)"
  unfolding wf_df_def columns_def
  by (auto simp: nrows_loc_mask) (auto simp: loc_mask_def list_all_iff col_len_mask2 comp_def case_prod_unfold)

lemma rows_of_loc_mask:
  "wf_df df \<Longrightarrow> rows_of (loc_mask df m) = take_mask m (rows_of df)"
proof (induction df rule: rows_of.induct)
  case 1 show ?case by (cases m) (simp_all add: loc_mask_def)
next
  case (2 n c) show ?case by (simp add: loc_mask_def cells_col_mask take_mask_map)
next
  case (3 n c p rest)
  obtain n' c' where p: "p = (n', c')" by (cases p)
  from 3(2) have wf: "wf_df (p # rest)" and len: "col_len c' = col_len c"
    by (auto simp: wf_df_def columns_def p)
  have "length (cells c) = length (rows_of (p # rest))"
    using wf len by (simp add: length_rows_of length_cells p)
  with 3(1) [OF wf] show ?case
    by (simp add: p loc_mask_def cells_col_mask take_mask_map2)
qed

lemma getitem_loc_mask:
  "getitem (loc_mask df m) name = (case getitem df name of Inl e \<Rightarrow> Inl e | Inr c \<Rightarrow> Inr (col_mask m c))"
  unfolding getitem_def loc_mask_def
  by (induction df) (auto split: option.splits)

lemma columns_loc_mask: "columns (loc_mask df m) = columns df"
  by (simp add: columns_def loc_mask_def comp_def case_prod_unfold)

lemma lookup_new_column:
  "length vs = length rs \<Longrightarrow> map (\<lambda>r. map_of r n) (map2 (\<lambda>v r. (n, v) # r) vs rs) = map Some vs"
  by (induction vs rs rule: list_induct2) auto

lemma lookup_old_column:
  "length vs = length rs \<Longrightarrow> name \<noteq> n \<Longrightarrow>
   map (\<lambda>r. map_of r name) (map2 (\<lambda>v r. (n, v) # r) vs rs) = map (\<lambda>r. map_of r name) rs"
  by (induction vs rs rule: list_induct2) auto

lemma getitem_rows:
  "wf_df df \<Longrightarrow> getitem df name = Inr c \<Longrightarrow> map (\<lambda>r. map_of r name) (rows_of df) = map Some (cells c)"
proof (induction df rule: rows_of.induct)
  case 1 then show ?case by (simp add: getitem_def)
next
  case (2 n c0) then show ?case by (auto simp: getitem_def comp_def split: if_splits)
next
  case (3 n c0 p rest)
  obtain n' c' where p: "p = (n', c')" by (cases p)
  from 3(2) have wf: "wf_df (p # rest)" and len: "col_len c' = col_len c0"
    by (auto simp: wf_df_def columns_def p)
  have eq: "length (cells c0) = length (rows_of (p # rest))"
    using wf len by (simp add: length_rows_of length_cells p)
  have unfold: "rows_of ((n, c0) # p # rest) = map2 (\<lambda>v r. (n, v) # r) (cells c0) (rows_of (p # rest))"
    by (simp add: p)
  show ?case
  proof (cases "name = n")
    case True
    with 3(3) have "c = c0" by (simp add: getitem_def)
    with True show ?thesis
      unfolding unfold using lookup_new_column [OF eq] by simp
  next
    case False
    with 3(3) have "getitem (p # rest) name = Inr c" by (simp add: getitem_def)
    from 3(1) [OF wf this] show ?thesis
      unfolding unfold using lookup_old_column [OF eq False] by simp
  qed
qed

lemma absent_rows:
  "wf_df df \<Longrightarrow> name \<notin> set (columns df) \<Longrightarrow> r \<in> set (rows_of df) \<Longrightarrow> map_of r name = None"
proof (induction df arbitrary: r rule: rows_of.induct)
  case 1 then show ?case by simp
next
  case (2 n c0) then show ?case by (auto simp: columns_def)
next
  case (3 n c0 p rest)
  obtain n' c' where p: "p = (n', c')" by (cases p)
  from 3(2) have wf: "wf_df (p # rest)"
    by (auto simp: wf_df_def columns_def p)
  from 3(3) have ne: "name \<noteq> n" and nin: "name \<notin> set (columns (p # rest))"
    by (auto simp: columns_def)
  from 3(4) obtain v r' where r: "r = (n, v) # r'" and r': "r' \<in> set (rows_of (p # rest))"
    by (auto simp: p dest!: set_zip_rightD)
  from 3(1) [OF wf nin r'] ne show ?case by (simp add: r)
qed

lemma getitem_present: "name \<in> set (columns df) \<Longrightarrow> \<exists>c. getitem df name = Inr c"
  unfolding getitem_def columns_def
  by (auto split: option.splits simp: map_of_eq_None_iff)

lemma getitem_absent: "name \<notin> set (columns df) \<Longrightarrow> getitem df name = Inl (KeyError name)"
  unfolding getitem_def columns_def
  by (auto split: option.splits simp: map_of_eq_None_iff [symmetric])


lemma isin_rows:
  assumes "wf_df df" and "getitem df name = Inr c"
  shows "isin c vals = map (\<lambda>r. case map_of r name of None \<Rightarrow> False | Some v \<Rightarrow> v \<in> set vals) (rows_of df)"
proof -
  have "map (\<lambda>r. case map_of r name of None \<Rightarrow> False | Some v \<Rightarrow> v \<in> set vals) (rows_of df)
      = map (case_option False (\<lambda>v. v \<in> set vals)) (map (\<lambda>r. map_of r name) (rows_of df))"
    by (simp add: comp_def)
  also have "\<dots> = map (\<lambda>v. v \<in> set vals) (cells c)"
    by (simp add: getitem_rows [OF assms] comp_def)
  finally show ?thesis by (simp add: isin_def)
qed

lemma rows_of_select:
  assumes "wf_df df" and "getitem df name = Inr c"
  shows "rows_of (loc_mask df (isin c vals)) =
         filter (\<lambda>r. case map_of r name of None \<Rightarrow> False | Some v \<Rightarrow> v \<in> set vals) (rows_of df)"
  by (simp add: rows_of_loc_mask [OF assms(1)] isin_rows [OF assms] take_mask_pred)

lemma present_rows:
  assumes "wf_df df" and "getitem df name = Inr c" and "r \<in> set (rows_of df)"
  shows "map_of r name \<noteq> None"
proof -
  from getitem_rows [OF assms(1,2)] have "\<forall>r\<in>set (rows_of df). map_of r name \<in> Some ` set (cells c)"
    by (metis (no_types, lifting) image_eqI list.set_map)
  with assms(3) show ?thesis by auto
qed

subsection \<open>Every loaded table is well formed\<close>

lemma those_length: "those xs = Some ys \<Longrightarrow> length ys = length xs"
  by (induction xs arbitrary: ys) (auto split: option.splits)

lemma infer_column_len: "infer_column fs = Inr c \<Longrightarrow> col_len c = length fs"
  by (auto simp: infer_column_def split: if_splits option.splits dest: those_length)

lemma collect_all2: "collect rs = Inr xs \<Longrightarrow> list_all2 (\<lambda>r x. r = Inr x) rs xs"
  by (induction rs arbitrary: xs rule: collect.induct) (auto split: sum.splits)

lemma collect_infer_len:
  assumes "collect (map (\<lambda>j. infer_column (g j)) js) = Inr cols"
  shows "length cols = length js \<and> (\<forall>c\<in>set cols. \<exists>j\<in>set js. infer_column (g j) = Inr c)"
proof -
  from collect_all2 [OF assms] have a: "list_all2 (\<lambda>r x. r = Inr x) (map (\<lambda>j. infer_column (g j)) js) cols" .
  then have "length cols = length js" by (auto dest: list_all2_lengthD)
  moreover have "\<exists>j\<in>set js. infer_column (g j) = Inr c" if "c \<in> set cols" for c
  proof -
    from that obtain i where i: "i < length cols" "cols ! i = c" by (auto simp: in_set_conv_nth)
    with a have "map (\<lambda>j. infer_column (g j)) js ! i = Inr c" by (auto simp: list_all2_conv_all_nth)
    moreover from i a have "i < length js" by (auto dest: list_all2_lengthD)
    ultimately show ?thesis by (auto intro: bexI [of _ "js ! i"])
  qed
  ultimately show ?thesis by blast
qed

lemma wf_zip:
  assumes "distinct names" and "length cols = length names" and "\<forall>c\<in>set cols. col_len c = n"
  shows "wf_df (zip names cols)"
proof -
  have "nrows (zip names cols) = n \<or> zip names cols = []"
    using assms(2,3) by (cases names; cases cols) auto
  moreover have "\<forall>(a, c)\<in>set (zip names cols). col_len c = n"
    using assms(3) by (auto dest: set_zip_rightD)
  ultimately show ?thesis
    using assms(1,2) by (auto simp: wf_df_def columns_def list_all_iff)
qed

lemma read_csv_shape:
  "read_csv t = Inr df \<Longrightarrow>
   \<exists>names recs cols. distinct names \<and> df = zip names cols \<and>
     collect (map (\<lambda>j. infer_column (map (\<lambda>r. r ! j) recs)) [0..<length names]) = Inr cols"
proof -
  assume a: "read_csv t = Inr df"
  define lines where "lines = filter (\<lambda>l. l \<noteq> []) (split_on (CHR 0x0A) t)"
  from a obtain header body where l: "lines = header # body"
    unfolding read_csv_def Let_def lines_def [symmetric]
    by (cases lines) (simp_all split: if_splits)
  define names where "names = split_on (CHR '','') header"
  define recs where "recs = map (split_on (CHR '','')) body"
  from a have "distinct names \<and>
     (case collect (map (\<lambda>j. infer_column (map (\<lambda>r. r ! j) recs)) [0..<length names]) of
        Inl e \<Rightarrow> Inl e | Inr cols \<Rightarrow> Inr (zip names cols)) = Inr df"
    unfolding read_csv_def Let_def lines_def [symmetric] l list.case names_def [symmetric] recs_def [symmetric]
    by (simp split: if_splits)
  then show ?thesis
    by (cases "collect (map (\<lambda>j. infer_column (map (\<lambda>r. r ! j) recs)) [0..<length names])") auto
qed

lemma read_csv_wf:
  assumes "read_csv t = Inr df" shows "wf_df df"
proof -
  from read_csv_shape [OF assms] obtain names recs cols where
    d: "distinct names" and df: "df = zip names cols" and
    c: "collect (map (\<lambda>j. infer_column (map (\<lambda>r. r ! j) recs)) [0..<length names]) = Inr cols"
    by blast
  from collect_infer_len [OF c] have l: "length cols = length names"
    and i: "\<forall>c\<in>set cols. \<exists>j\<in>set [0..<length names]. infer_column (map (\<lambda>r. r ! j) recs) = Inr c"
    by simp_all
  have "\<forall>c\<in>set cols. col_len c = length recs"
  proof
    fix c assume "c \<in> set cols"
    with i obtain j where "infer_column (map (\<lambda>r. r ! j) recs) = Inr c" by blast
    from infer_column_len [OF this] show "col_len c = length recs" by simp
  qed
  with d l show ?thesis unfolding df by (intro wf_zip)
qed

lemma sample_wf: "wf_df load_sample_data"
  by (simp add: wf_df_def load_sample_data_def columns_def)

lemma load_data_wf: "load_data u = Inr df \<Longrightarrow> wf_df df"
  by (cases u) (auto simp: load_data_def sample_wf dest: read_csv_wf)

subsection \<open>The filter\<close>

text \<open>
  C1. For every well-formed table (every table the loader returns is one, by
  \<open>load_data_wf\<close>) with a day column and every selection, the filter returns a table
  with the same columns whose rows are exactly the rows of the loaded table that the
  selection keeps (day value among the selected days, and category value among the selected
  categories when the table has a category column), in their original order and each once:
  the filtered rows are a subsequence of the rows of the table. This is the filtered table
  of every run of the script that completes.
\<close>

theorem filter_exact:
  assumes wf: "wf_df df" and hari: "''Hari'' \<in> set (columns df)"
  shows "\<exists>f. apply_filter df days cats = Inr f \<and> columns f = columns df \<and>
             rows_of f = filter (selected_row days cats) (rows_of df) \<and>
             subseq (rows_of f) (rows_of df) \<and>
             (\<forall>p. dashboard df days cats = Inr p \<longrightarrow> filtered_df p = f)"
proof -
  from getitem_present [OF hari] obtain h where h: "getitem df ''Hari'' = Inr h" ..
  let ?f1 = "loc_mask df (isin h days)"
  let ?P1 = "\<lambda>r. case map_of r ''Hari'' of None \<Rightarrow> False | Some d \<Rightarrow> d \<in> set days"
  have wf1: "wf_df ?f1" by (rule wf_loc_mask [OF wf])
  have rows1: "rows_of ?f1 = filter ?P1 (rows_of df)" by (rule rows_of_select [OF wf h])
  have run: "\<forall>p. dashboard df days cats = Inr p \<longrightarrow> filtered_df p = f"
    if "apply_filter df days cats = Inr f" for f
    using that by (auto simp: dashboard_def split: sum.splits)
  have "\<exists>f. apply_filter df days cats = Inr f \<and> columns f = columns df \<and>
             rows_of f = filter (selected_row days cats) (rows_of df)"
  proof (cases "''Kategori'' \<in> set (columns df)")
    case False
    have "filter ?P1 (rows_of df) = filter (selected_row days cats) (rows_of df)"
      by (rule filter_cong) (auto simp: selected_row_def absent_rows [OF wf False])
    with h False rows1 show ?thesis
      by (simp add: apply_filter_def columns_loc_mask)
  next
    case True
    from getitem_present [OF True] obtain k where k: "getitem df ''Kategori'' = Inr k" ..
    let ?k1 = "col_mask (isin h days) k"
    let ?P2 = "\<lambda>r. case map_of r ''Kategori'' of None \<Rightarrow> False | Some v \<Rightarrow> v \<in> set cats"
    have k1: "getitem ?f1 ''Kategori'' = Inr ?k1" by (simp add: getitem_loc_mask k)
    have rows2: "rows_of (loc_mask ?f1 (isin ?k1 cats)) = filter ?P2 (rows_of ?f1)"
      by (rule rows_of_select [OF wf1 k1])
    have "filter ?P2 (filter ?P1 (rows_of df)) = filter (selected_row days cats) (rows_of df)"
      unfolding filter_filter
      by (rule filter_cong) (auto simp: selected_row_def split: option.splits dest: present_rows [OF wf k])
    with rows1 rows2 have "rows_of (loc_mask ?f1 (isin ?k1 cats)) = filter (selected_row days cats) (rows_of df)"
      by simp
    with h True k1 show ?thesis
      by (simp add: apply_filter_def columns_loc_mask)
  qed
  then obtain f where f: "apply_filter df days cats = Inr f" "columns f = columns df"
    "rows_of f = filter (selected_row days cats) (rows_of df)" by blast
  from f(3) have "subseq (rows_of f) (rows_of df)" by simp
  with f run [OF f(1)] show ?thesis by blast
qed

theorem filter_exact_witness:
  "wf_df load_sample_data \<and> ''Hari'' \<in> set (columns load_sample_data) \<and>
   apply_filter load_sample_data [S ''Rabu'', S ''Selasa''] [S ''Makanan''] =
     Inr [(''Hari'', StrCol [''Rabu'']), (''Kategori'', StrCol [''Makanan'']),
          (''Penjualan'', IntCol [90]), (''Pengunjung'', IntCol [30])] \<and>
   filter (selected_row [S ''Rabu'', S ''Selasa''] [S ''Makanan'']) (rows_of load_sample_data) =
     [[(''Hari'', S ''Rabu''), (''Kategori'', S ''Makanan''), (''Penjualan'', I 90), (''Pengunjung'', I 30)]] \<and>
   subseq [[(''Hari'', S ''Rabu''), (''Kategori'', S ''Makanan''), (''Penjualan'', I 90), (''Pengunjung'', I 30)]]
     (rows_of load_sample_data)"
proof -
  have wf: "wf_df load_sample_data"
    by (simp add: wf_df_def load_sample_data_def columns_def)
  have hari: "''Hari'' \<in> set (columns load_sample_data)"
    by (simp add: load_sample_data_def columns_def)
  have f: "apply_filter load_sample_data [S ''Rabu'', S ''Selasa''] [S ''Makanan''] =
     Inr [(''Hari'', StrCol [''Rabu'']), (''Kategori'', StrCol [''Makanan'']),
          (''Penjualan'', IntCol [90]), (''Pengunjung'', IntCol [30])]"
    by (simp add: apply_filter_def load_sample_data_def getitem_def columns_def loc_mask_def isin_def)
  from filter_exact [OF wf hari, of "[S ''Rabu'', S ''Selasa'']" "[S ''Makanan'']"] f
  have "filter (selected_row [S ''Rabu'', S ''Selasa''] [S ''Makanan'']) (rows_of load_sample_data) =
     [[(''Hari'', S ''Rabu''), (''Kategori'', S ''Makanan''), (''Penjualan'', I 90), (''Pengunjung'', I 30)]]"
    and "subseq [[(''Hari'', S ''Rabu''), (''Kategori'', S ''Makanan''), (''Penjualan'', I 90), (''Pengunjung'', I 30)]]
     (rows_of load_sample_data)"
    by auto
  with wf hari f show ?thesis by blast
qed

subsection \<open>The default selection\<close>

lemma set_unique_from: "set (unique_from seen xs) = set seen \<union> set xs"
  by (induction xs arbitrary: seen) auto

lemma distinct_unique_from: "distinct seen \<Longrightarrow> distinct (unique_from seen xs)"
  by (induction xs arbitrary: seen) auto

lemma set_unique: "set (unique c) = set (cells c)"
  by (simp add: unique_def set_unique_from)

lemma distinct_unique: "distinct (unique c)"
  by (simp add: unique_def distinct_unique_from)

lemma take_mask_all:
  "length xs = length ys \<Longrightarrow> set ys \<subseteq> A \<Longrightarrow> take_mask (map (\<lambda>v. v \<in> A) ys) xs = xs"
  by (induction xs ys rule: list_induct2) auto

lemma col_mask_all:
  "col_len c = col_len h \<Longrightarrow> set (cells h) \<subseteq> set vals \<Longrightarrow> col_mask (isin h vals) c = c"
  by (cases c) (simp_all add: isin_def take_mask_all length_cells)

lemma getitem_member: "getitem df name = Inr c \<Longrightarrow> (name, c) \<in> set df"
  by (auto simp: getitem_def split: option.splits dest: map_of_SomeD)

lemma wf_col_len: "wf_df df \<Longrightarrow> (n, c) \<in> set df \<Longrightarrow> col_len c = nrows df"
  by (auto simp: wf_df_def list_all_iff)

lemma loc_mask_all:
  assumes "wf_df df" and "getitem df name = Inr h" and "set (cells h) \<subseteq> set vals"
  shows "loc_mask df (isin h vals) = df"
proof -
  have h: "col_len h = nrows df" by (rule wf_col_len [OF assms(1) getitem_member [OF assms(2)]])
  have "(case p of (n, c) \<Rightarrow> (n, col_mask (isin h vals) c)) = p" if "p \<in> set df" for p
  proof -
    obtain n c where p: "p = (n, c)" by (cases p)
    from that have "col_len c = nrows df" unfolding p by (rule wf_col_len [OF assms(1)])
    with h assms(3) show ?thesis by (simp add: p col_mask_all)
  qed
  then show ?thesis unfolding loc_mask_def by (simp add: map_idI)
qed

text \<open>
  C10. For every table with a day column, the default selection offers every distinct day
  value once and, when the table has a category column, every distinct category value once
  (the empty list otherwise), and under the default selection the filter returns the
  loaded table itself.
\<close>

theorem default_selection_identity:
  assumes wf: "wf_df df" and hari: "''Hari'' \<in> set (columns df)"
  shows "\<exists>h days cats.
           getitem df ''Hari'' = Inr h \<and>
           default_hari df = Inr days \<and> distinct days \<and> set days = set (cells h) \<and>
           default_kategori df = Inr cats \<and> distinct cats \<and>
           (\<forall>k. getitem df ''Kategori'' = Inr k \<longrightarrow> set cats = set (cells k)) \<and>
           apply_filter df days cats = Inr df"
proof -
  from getitem_present [OF hari] obtain h where h: "getitem df ''Hari'' = Inr h" ..
  have d: "default_hari df = Inr (unique h)" by (simp add: default_hari_def day_options_def h)
  have f1: "loc_mask df (isin h (unique h)) = df"
    by (rule loc_mask_all [OF wf h]) (simp add: set_unique)
  show ?thesis
  proof (cases "''Kategori'' \<in> set (columns df)")
    case False
    then have "default_kategori df = Inr []"
      by (simp add: default_kategori_def category_options_def)
    moreover have "apply_filter df (unique h) [] = Inr df"
      using h False f1 by (simp add: apply_filter_def)
    moreover have "\<forall>k. getitem df ''Kategori'' \<noteq> Inr k"
      using getitem_absent [OF False] by simp
    ultimately show ?thesis using h d by (simp add: distinct_unique set_unique)
  next
    case True
    from getitem_present [OF True] obtain k where k: "getitem df ''Kategori'' = Inr k" ..
    have "default_kategori df = Inr (unique k)"
      using True k by (simp add: default_kategori_def category_options_def)
    moreover have "loc_mask df (isin k (unique k)) = df"
      by (rule loc_mask_all [OF wf k]) (simp add: set_unique)
    then have "apply_filter df (unique h) (unique k) = Inr df"
      using h True k f1 by (simp add: apply_filter_def)
    ultimately show ?thesis using h k d by (simp add: distinct_unique set_unique)
  qed
qed

theorem default_selection_identity_witness:
  "wf_df load_sample_data \<and> ''Hari'' \<in> set (columns load_sample_data) \<and>
   default_hari load_sample_data =
     Inr [S ''Senin'', S ''Selasa'', S ''Rabu'', S ''Kamis'', S ''Jumat'', S ''Sabtu'', S ''Minggu''] \<and>
   default_kategori load_sample_data = Inr [S ''Makanan'', S ''Minuman''] \<and>
   apply_filter load_sample_data
     [S ''Senin'', S ''Selasa'', S ''Rabu'', S ''Kamis'', S ''Jumat'', S ''Sabtu'', S ''Minggu'']
     [S ''Makanan'', S ''Minuman''] = Inr load_sample_data"
proof -
  have wf: "wf_df load_sample_data"
    by (simp add: wf_df_def load_sample_data_def columns_def)
  have hari: "''Hari'' \<in> set (columns load_sample_data)"
    by (simp add: load_sample_data_def columns_def)
  have d: "default_hari load_sample_data =
     Inr [S ''Senin'', S ''Selasa'', S ''Rabu'', S ''Kamis'', S ''Jumat'', S ''Sabtu'', S ''Minggu'']"
    by (simp add: default_hari_def day_options_def load_sample_data_def getitem_def unique_def)
  have k: "default_kategori load_sample_data = Inr [S ''Makanan'', S ''Minuman'']"
    by (simp add: default_kategori_def category_options_def load_sample_data_def getitem_def
        unique_def columns_def)
  from default_selection_identity [OF wf hari] d k
  have "apply_filter load_sample_data
     [S ''Senin'', S ''Selasa'', S ''Rabu'', S ''Kamis'', S ''Jumat'', S ''Sabtu'', S ''Minggu'']
     [S ''Makanan'', S ''Minuman''] = Inr load_sample_data"
    by auto
  with wf hari d k show ?thesis by blast
qed

subsection \<open>The key figures of the sample\<close>

lemma sample_filter_all:
  "apply_filter load_sample_data
     [S ''Senin'', S ''Selasa'', S ''Rabu'', S ''Kamis'', S ''Jumat'', S ''Sabtu'', S ''Minggu'']
     [S ''Makanan'', S ''Minuman''] = Inr load_sample_data"
  by (simp add: apply_filter_def load_sample_data_def getitem_def columns_def loc_mask_def isin_def)

lemma sample_kpi:
  "kpi_section load_sample_data =
     Inr \<lparr>total_sales = I 1130, total_visitors = I 530,
          avg_sales = Fin (1130 / 7), avg_visitors = Fin (530 / 7)\<rparr>"
  by (simp add: kpi_section_def load_sample_data_def getitem_def)

text \<open>
  C7. On the built-in sample with every day and every category selected (the default
  selection), the run yields the total sales 1130, the total visitors 530, the mean sales
  1130/7 and the mean visitors 530/7, which are 161.43 and 75.71 to two decimals.
\<close>

theorem sample_key_figures:
  "default_hari load_sample_data =
     Inr [S ''Senin'', S ''Selasa'', S ''Rabu'', S ''Kamis'', S ''Jumat'', S ''Sabtu'', S ''Minggu''] \<and>
   default_kategori load_sample_data = Inr [S ''Makanan'', S ''Minuman''] \<and>
   (\<exists>p. dashboard load_sample_data
          [S ''Senin'', S ''Selasa'', S ''Rabu'', S ''Kamis'', S ''Jumat'', S ''Sabtu'', S ''Minggu'']
          [S ''Makanan'', S ''Minuman''] = Inr p \<and>
        filtered_df p = load_sample_data \<and>
        kpis p = \<lparr>total_sales = I 1130, total_visitors = I 530,
                   avg_sales = Fin (1130 / 7), avg_visitors = Fin (530 / 7)\<rparr>) \<and>
   \<bar>1130 / 7 - 161.43\<bar> < (0.005 :: rat) \<and> \<bar>530 / 7 - 75.71\<bar> < (0.005 :: rat)"
proof -
  have d: "default_hari load_sample_data =
     Inr [S ''Senin'', S ''Selasa'', S ''Rabu'', S ''Kamis'', S ''Jumat'', S ''Sabtu'', S ''Minggu'']"
    by (simp add: default_hari_def day_options_def load_sample_data_def getitem_def unique_def)
  have k: "default_kategori load_sample_data = Inr [S ''Makanan'', S ''Minuman'']"
    by (simp add: default_kategori_def category_options_def load_sample_data_def getitem_def unique_def columns_def)
  have o: "day_options load_sample_data =
     Inr [S ''Senin'', S ''Selasa'', S ''Rabu'', S ''Kamis'', S ''Jumat'', S ''Sabtu'', S ''Minggu'']"
    using d by (simp add: default_hari_def)
  have c: "category_options load_sample_data = Inr (Some [S ''Makanan'', S ''Minuman''])"
    by (simp add: category_options_def load_sample_data_def getitem_def unique_def columns_def)
  have p: "\<exists>t. pie_section load_sample_data load_sample_data = Inr t"
    by (simp add: pie_section_def groupby_sum_def load_sample_data_def getitem_def columns_def)
  then obtain t where t: "pie_section load_sample_data load_sample_data = Inr t" ..
  have "dashboard load_sample_data
          [S ''Senin'', S ''Selasa'', S ''Rabu'', S ''Kamis'', S ''Jumat'', S ''Sabtu'', S ''Minggu'']
          [S ''Makanan'', S ''Minuman''] =
        Inr \<lparr>hari_list = [S ''Senin'', S ''Selasa'', S ''Rabu'', S ''Kamis'', S ''Jumat'', S ''Sabtu'', S ''Minggu''],
             kategori_list = Some [S ''Makanan'', S ''Minuman''], filtered_df = load_sample_data,
             csv = to_csv load_sample_data,
             kpis = \<lparr>total_sales = I 1130, total_visitors = I 530,
                   avg_sales = Fin (1130 / 7), avg_visitors = Fin (530 / 7)\<rparr>,
             pie_df = t\<rparr>"
    unfolding dashboard_def by (simp add: o c sample_filter_all sample_kpi t)
  with d k show ?thesis by simp
qed

subsection \<open>Nothing selected\<close>












lemma apply_filter_shape:
  assumes "''Hari'' \<in> set (columns df)"
  shows "\<exists>h f. getitem df ''Hari'' = Inr h \<and> apply_filter df days cats = Inr f \<and> columns f = columns df \<and>
           (f = loc_mask df (isin h days) \<or> (\<exists>m. f = loc_mask (loc_mask df (isin h days)) m))"
proof -
  from getitem_present [OF assms] obtain h where h: "getitem df ''Hari'' = Inr h" ..
  show ?thesis
  proof (cases "''Kategori'' \<in> set (columns df)")
    case False
    with h show ?thesis by (simp add: apply_filter_def columns_loc_mask)
  next
    case True
    from getitem_present [OF True] obtain k where k: "getitem df ''Kategori'' = Inr k" ..
    with h True show ?thesis by (auto simp: apply_filter_def columns_loc_mask getitem_loc_mask)
  qed
qed

lemma pie_section_total:
  assumes "columns f = columns df" and "''Penjualan'' \<in> set (columns df)"
  shows "\<exists>t. pie_section df f = Inr t \<and> (t = None \<longleftrightarrow> ''Kategori'' \<notin> set (columns df))"
proof (cases "''Kategori'' \<in> set (columns df)")
  case False
  then show ?thesis by (simp add: pie_section_def)
next
  case True
  from True assms(1) have "''Kategori'' \<in> set (columns f)" by simp
  from getitem_present [OF this] obtain k where k: "getitem f ''Kategori'' = Inr k" ..
  from assms have "''Penjualan'' \<in> set (columns f)" by simp
  from getitem_present [OF this] obtain v where v: "getitem f ''Penjualan'' = Inr v" ..
  from True k v show ?thesis by (simp add: pie_section_def groupby_sum_def)
qed

lemma options_total:
  assumes "''Hari'' \<in> set (columns df)"
  shows "\<exists>d c. day_options df = Inr d \<and> category_options df = Inr c"
proof -
  from getitem_present [OF assms] obtain h where h: "getitem df ''Hari'' = Inr h" ..
  show ?thesis
  proof (cases "''Kategori'' \<in> set (columns df)")
    case False
    with h show ?thesis by (simp add: day_options_def category_options_def)
  next
    case True
    from getitem_present [OF True] obtain k where k: "getitem df ''Kategori'' = Inr k" ..
    with h True show ?thesis by (simp add: day_options_def category_options_def)
  qed
qed



subsection \<open>Totals and means\<close>

lemma sum_list_int64: "sum_list xs = (word_of_int (exact_sum xs) :: int64)"
  by (induction xs) (simp_all add: exact_sum_def)






subsection \<open>Missing columns\<close>

lemma collect_error: "collect rs = Inl e \<Longrightarrow> Inl e \<in> set rs"
  by (induction rs rule: collect.induct) (auto split: sum.splits)

lemma infer_column_error: "infer_column fs = Inl e \<Longrightarrow> e = Unsupported"
  by (auto simp: infer_column_def split: if_splits option.splits)

lemma collect_infer_error:
  assumes "collect (map (\<lambda>j. infer_column (g j)) js) = Inl e"
  shows "e = Unsupported"
proof -
  from collect_error [OF assms] obtain j where "infer_column (g j) = Inl e" by auto
  then show ?thesis by (rule infer_column_error)
qed

lemma read_csv_error:
  "read_csv t = Inl e \<Longrightarrow> e = Unsupported \<or> e = EmptyDataError \<or> e = ParserError"
  unfolding read_csv_def Let_def
  by (auto split: if_splits list.splits sum.splits dest: collect_infer_error)

lemma load_data_no_key_error: "load_data u \<noteq> Inl (KeyError c)"
  by (cases u) (auto simp: load_data_def dest: read_csv_error)

lemma apply_filter_columns:
  "''Hari'' \<in> set (columns df) \<Longrightarrow> \<exists>f. apply_filter df days cats = Inr f \<and> columns f = columns df"
  using apply_filter_shape [of df days cats] by blast

lemma dashboard_missing:
  assumes "first_missing df = Some c"
  shows "dashboard df days cats = Inl (KeyError c)"
proof (cases "''Hari'' \<in> set (columns df)")
  case False
  with assms have "c = ''Hari''" by (simp add: first_missing_def required_columns_def)
  with False show ?thesis by (simp add: dashboard_def day_options_def getitem_absent)
next
  case True
  from options_total [OF True] obtain d k where o: "day_options df = Inr d" "category_options df = Inr k"
    by blast
  from apply_filter_columns [OF True] obtain f where f: "apply_filter df days cats = Inr f" "columns f = columns df"
    by blast
  show ?thesis
  proof (cases "''Penjualan'' \<in> set (columns df)")
    case False
    with True assms have "c = ''Penjualan''" by (simp add: first_missing_def required_columns_def)
    with False f show ?thesis by (simp add: dashboard_def o kpi_section_def getitem_absent)
  next
    case p: True
    with True assms have c: "c = ''Pengunjung''" "''Pengunjung'' \<notin> set (columns f)"
      by (auto simp: first_missing_def required_columns_def f split: if_splits)
    from p f have "''Penjualan'' \<in> set (columns f)" by simp
    from getitem_present [OF this] obtain a where "getitem f ''Penjualan'' = Inr a" ..
    with c f show ?thesis by (simp add: dashboard_def o kpi_section_def getitem_absent)
  qed
qed

lemma dashboard_without_category:
  assumes k: "''Kategori'' \<notin> set (columns df)"
    and h: "getitem df ''Hari'' = Inr h"
    and a: "getitem df ''Penjualan'' = Inr (IntCol a)"
    and b: "getitem df ''Pengunjung'' = Inr (IntCol b)"
  shows "\<exists>p. dashboard df days cats = Inr p \<and> kategori_list p = None \<and> pie_df p = None \<and>
             filtered_df p = loc_mask df (isin h days)"
proof -
  have f: "apply_filter df days cats = Inr (loc_mask df (isin h days))"
    using k h by (simp add: apply_filter_def)
  have "\<exists>x. kpi_section (loc_mask df (isin h days)) = Inr x"
    by (simp add: kpi_section_def getitem_loc_mask a b)
  then obtain x where x: "kpi_section (loc_mask df (isin h days)) = Inr x" ..
  show ?thesis
    using k h by (simp add: dashboard_def day_options_def category_options_def f x pie_section_def)
qed

text \<open>
  C4. For every uploaded table: if it lacks a required column (the day column or one of the
  two numeric columns), the run ends with \<open>KeyError\<close> naming the first required column
  that is missing, and produces no page; this signal is not one of the parse failures, and
  loading never produces it. If only the category column is missing (and the numeric columns
  are integer columns), the run completes, with no category selector and no per-category
  totals.
\<close>

theorem missing_column_signal:
  assumes "load_data (Some bytes) = Inr df"
  shows "(first_missing df = Some c \<longrightarrow>
            script (Some bytes) days cats = Inl (KeyError c) \<and>
            c \<in> set required_columns \<and> c \<notin> set (columns df) \<and>
            \<not> parse_failure (KeyError c) \<and> (\<forall>u. load_data u \<noteq> Inl (KeyError c))) \<and>
         (''Kategori'' \<notin> set (columns df) \<and> getitem df ''Hari'' = Inr h \<and>
          getitem df ''Penjualan'' = Inr (IntCol a) \<and> getitem df ''Pengunjung'' = Inr (IntCol b) \<longrightarrow>
            (\<exists>p. script (Some bytes) days cats = Inr p \<and> kategori_list p = None \<and> pie_df p = None))"
proof -
  have s: "script (Some bytes) days cats = dashboard df days cats"
    by (simp add: script_def assms)
  have "c \<in> set required_columns \<and> c \<notin> set (columns df)" if "first_missing df = Some c"
    using that unfolding first_missing_def by (auto simp: find_Some_iff)
  then show ?thesis
    unfolding s using dashboard_missing [of df c days cats] dashboard_without_category [of df h a b days cats]
      load_data_no_key_error by auto
qed

theorem missing_column_signal_witness:
  "load_data (Some (''Hari,Penjualan'' @ [CHR 0x0A] @ ''Senin,120'' @ [CHR 0x0A])) =
     Inr [(''Hari'', StrCol [''Senin'']), (''Penjualan'', IntCol [120])] \<and>
   first_missing [(''Hari'', StrCol [''Senin'']), (''Penjualan'', IntCol [120])] = Some ''Pengunjung'' \<and>
   script (Some (''Hari,Penjualan'' @ [CHR 0x0A] @ ''Senin,120'' @ [CHR 0x0A])) [S ''Senin''] [] =
     Inl (KeyError ''Pengunjung'') \<and>
   load_data (Some (''Hari,Penjualan,Pengunjung'' @ [CHR 0x0A] @ ''Senin,120,50'' @ [CHR 0x0A])) =
     Inr [(''Hari'', StrCol [''Senin'']), (''Penjualan'', IntCol [120]), (''Pengunjung'', IntCol [50])] \<and>
   ''Kategori'' \<notin> set (columns [(''Hari'', StrCol [''Senin'']), (''Penjualan'', IntCol [120]), (''Pengunjung'', IntCol [50])]) \<and>
   (\<exists>p. script (Some (''Hari,Penjualan,Pengunjung'' @ [CHR 0x0A] @ ''Senin,120,50'' @ [CHR 0x0A]))
          [S ''Senin''] [] = Inr p \<and> kategori_list p = None \<and> pie_df p = None)"
proof -
  let ?d1 = "[(''Hari'', StrCol [''Senin'']), (''Penjualan'', IntCol [120])]"
  let ?d2 = "[(''Hari'', StrCol [''Senin'']), (''Penjualan'', IntCol [120]), (''Pengunjung'', IntCol [50])]"
  have l1: "load_data (Some (''Hari,Penjualan'' @ [CHR 0x0A] @ ''Senin,120'' @ [CHR 0x0A])) = Inr ?d1"
    by (simp add: load_data_def read_csv_def plain_char_def split_on_def infer_column_def
        parse_int64_def parse_int_def is_digit_def digits_val_def is_text_def is_alpha_def
        lower_def na_values_def)
  have l2: "load_data (Some (''Hari,Penjualan,Pengunjung'' @ [CHR 0x0A] @ ''Senin,120,50'' @ [CHR 0x0A])) = Inr ?d2"
    by (simp add: load_data_def read_csv_def plain_char_def split_on_def infer_column_def
        parse_int64_def parse_int_def is_digit_def digits_val_def is_text_def is_alpha_def
        lower_def na_values_def)
  have m: "first_missing ?d1 = Some ''Pengunjung''"
    by (simp add: first_missing_def required_columns_def columns_def)
  have k: "''Kategori'' \<notin> set (columns ?d2)"
    and g: "getitem ?d2 ''Hari'' = Inr (StrCol [''Senin''])"
      "getitem ?d2 ''Penjualan'' = Inr (IntCol [120])" "getitem ?d2 ''Pengunjung'' = Inr (IntCol [50])"
    by (simp_all add: columns_def getitem_def)
  from missing_column_signal [OF l1, of "''Pengunjung''" "[S ''Senin'']" "[]"] m
  have 1: "script (Some (''Hari,Penjualan'' @ [CHR 0x0A] @ ''Senin,120'' @ [CHR 0x0A])) [S ''Senin''] [] =
     Inl (KeyError ''Pengunjung'')" by blast
  from missing_column_signal [OF l2, of _ "[S ''Senin'']" "[]" "StrCol [''Senin'']" "[120]" "[50]"] k g
  have 2: "\<exists>p. script (Some (''Hari,Penjualan,Pengunjung'' @ [CHR 0x0A] @ ''Senin,120,50'' @ [CHR 0x0A]))
          [S ''Senin''] [] = Inr p \<and> kategori_list p = None \<and> pie_df p = None" by blast
  from l1 m 1 l2 k 2 show ?thesis by blast
qed

subsection \<open>Totals per category\<close>

lemma take_mask_zip:
  "take_mask (map P ks) xs = map snd (filter (\<lambda>(c, x). P c) (zip ks xs))"
proof (induction ks arbitrary: xs)
  case Nil show ?case by simp
next
  case (Cons k ks) then show ?case by (cases xs) simp_all
qed

lemma sint_inj: "sint x = sint y \<Longrightarrow> x = (y :: int64)"
proof -
  assume "sint x = sint y"
  then have "(word_of_int (sint x) :: int64) = word_of_int (sint y)" by simp
  then show ?thesis by simp
qed

lemma group_keys_set: "set (group_keys k) = set (cells k)"
  by (cases k) simp_all

lemma group_keys_distinct: "distinct (group_keys k)"
  by (cases k) (auto simp: distinct_map inj_on_def dest: sint_inj)

lemma group_keys_sorted: "sorted_wrt cell_less (group_keys k)"
proof (cases k)
  case (IntCol xs)
  have "sorted (map sint (sort_key sint (remdups xs)))" by (rule sorted_sort_key)
  moreover have "distinct (map sint (sort_key sint (remdups xs)))"
    by (auto simp: distinct_map inj_on_def dest: sint_inj)
  ultimately have "sorted_wrt (<) (map sint (sort_key sint (remdups xs)))"
    by (simp add: strict_sorted_iff)
  then show ?thesis by (simp add: IntCol sorted_wrt_map)
next
  case (StrCol xs)
  have "sorted_wrt (<) (sort (remdups xs))" by (simp add: strict_sorted_iff)
  then show ?thesis by (simp add: StrCol sorted_wrt_map)
qed

text \<open>
  C3, as amended. When the filtered table has a category column and an integer sales
  column, the per-category totals have exactly the category values that occur in the
  filtered rows as labels, each once, in ascending order (not in order of first
  occurrence), and the total of a label is the sum of the sales values of the filtered
  rows with that category, reduced modulo \<open>2\<^sup>6\<^sup>4\<close> into the \<open>int64\<close> range.
  These are the per-category totals of the page.
\<close>

theorem groupby_sorted_sums:
  assumes k: "getitem f ''Kategori'' = Inr k" and v: "getitem f ''Penjualan'' = Inr (IntCol xs)"
  shows "\<exists>g. groupby_sum f ''Kategori'' ''Penjualan'' = Inr g \<and>
           set (map fst g) = set (cells k) \<and> distinct (map fst g) \<and>
           sorted_wrt cell_less (map fst g) \<and>
           list_all (\<lambda>(key, total). total = I (word_of_int (exact_sum (values_where k key xs)))) g \<and>
           (\<forall>df. columns df = columns f \<longrightarrow> pie_section df f = Inr (Some g))"
proof -
  let ?g = "map (\<lambda>g. (g, series_sum (col_mask (map (\<lambda>x. x = g) (cells k)) (IntCol xs)))) (group_keys k)"
  have g: "groupby_sum f ''Kategori'' ''Penjualan'' = Inr ?g"
    by (simp add: groupby_sum_def k v)
  have keys: "map fst ?g = group_keys k" by (simp add: comp_def)
  have tot: "list_all (\<lambda>(key, total). total = I (word_of_int (exact_sum (values_where k key xs)))) ?g"
    by (simp add: list_all_iff take_mask_zip values_where_def sum_list_int64)
  have "''Kategori'' \<in> set (columns f)"
    using getitem_member [OF k] by (force simp: columns_def)
  then have pie: "pie_section df f = Inr (Some ?g)" if "columns df = columns f" for df
    using that by (simp add: pie_section_def g)
  show ?thesis
    apply (rule exI [of _ ?g])
    using g tot pie unfolding keys
    by (simp add: group_keys_set group_keys_distinct group_keys_sorted)
qed

theorem groupby_sorted_sums_witness:
  "getitem [(''Hari'', StrCol [''Selasa'', ''Rabu'']), (''Kategori'', StrCol [''Minuman'', ''Makanan'']),
            (''Penjualan'', IntCol [150, 90]), (''Pengunjung'', IntCol [60, 30])] ''Kategori'' =
     Inr (StrCol [''Minuman'', ''Makanan'']) \<and>
   getitem [(''Hari'', StrCol [''Selasa'', ''Rabu'']), (''Kategori'', StrCol [''Minuman'', ''Makanan'']),
            (''Penjualan'', IntCol [150, 90]), (''Pengunjung'', IntCol [60, 30])] ''Penjualan'' =
     Inr (IntCol [150, 90]) \<and>
   (\<exists>g. groupby_sum [(''Hari'', StrCol [''Selasa'', ''Rabu'']), (''Kategori'', StrCol [''Minuman'', ''Makanan'']),
            (''Penjualan'', IntCol [150, 90]), (''Pengunjung'', IntCol [60, 30])] ''Kategori'' ''Penjualan'' = Inr g \<and>
        set (map fst g) = set (cells (StrCol [''Minuman'', ''Makanan''])) \<and> distinct (map fst g) \<and>
        sorted_wrt cell_less (map fst g) \<and>
        list_all (\<lambda>(key, total). total =
           I (word_of_int (exact_sum (values_where (StrCol [''Minuman'', ''Makanan'']) key [150, 90])))) g)"
proof -
  let ?f = "[(''Hari'', StrCol [''Selasa'', ''Rabu'']), (''Kategori'', StrCol [''Minuman'', ''Makanan'']),
            (''Penjualan'', IntCol [150, 90]), (''Pengunjung'', IntCol [60, 30])]"
  have k: "getitem ?f ''Kategori'' = Inr (StrCol [''Minuman'', ''Makanan''])"
    and v: "getitem ?f ''Penjualan'' = Inr (IntCol [150, 90])"
    by (simp_all add: getitem_def)
  from groupby_sorted_sums [OF k v] k v show ?thesis by blast
qed

text \<open>
  C3 as stated fails on the order of the labels. On the sample with the days Selasa and
  Rabu selected the filtered rows are Selasa/Minuman/150/60 and Rabu/Makanan/90/30; the
  first category to occur is Minuman, but the totals are labelled Makanan, Minuman.
\<close>

theorem groupby_order_counterexample:
  "map_sum id filtered_df
     (dashboard load_sample_data [S ''Selasa'', S ''Rabu''] [S ''Makanan'', S ''Minuman'']) =
     Inr [(''Hari'', StrCol [''Selasa'', ''Rabu'']), (''Kategori'', StrCol [''Minuman'', ''Makanan'']),
          (''Penjualan'', IntCol [150, 90]), (''Pengunjung'', IntCol [60, 30])] \<and>
   map_sum id pie_df
     (dashboard load_sample_data [S ''Selasa'', S ''Rabu''] [S ''Makanan'', S ''Minuman'']) =
     Inr (Some [(S ''Makanan'', I 90), (S ''Minuman'', I 150)]) \<and>
   unique (StrCol [''Minuman'', ''Makanan'']) = [S ''Minuman'', S ''Makanan''] \<and>
   map fst [(S ''Makanan'', I 90), (S ''Minuman'', I (150 :: int64))] \<noteq> unique (StrCol [''Minuman'', ''Makanan''])"
proof -
  have s: "sort [''Minuman'', ''Makanan''] = [''Makanan'', ''Minuman'']"
    by code_simp
  show ?thesis
    by (simp add: dashboard_def day_options_def category_options_def apply_filter_def
        kpi_section_def pie_section_def groupby_sum_def getitem_def columns_def loc_mask_def
        isin_def load_sample_data_def unique_def s)
qed

subsection \<open>Export and re-import\<close>

lemma sample_partD:
  assumes "sample_part f"
  shows "\<exists>hs ks ps vs.
     f = [(''Hari'', StrCol hs), (''Kategori'', StrCol ks), (''Penjualan'', IntCol ps), (''Pengunjung'', IntCol vs)] \<and>
     length ks = length hs \<and> length ps = length hs \<and> length vs = length hs \<and>
     set hs \<subseteq> set [''Senin'', ''Selasa'', ''Rabu'', ''Kamis'', ''Jumat'', ''Sabtu'', ''Minggu''] \<and>
     set ks \<subseteq> set [''Makanan'', ''Minuman''] \<and>
     set ps \<subseteq> set [120, 150, 90, 170, 200, 220, 180] \<and>
     set vs \<subseteq> set [50, 60, 30, 80, 90, 120, 100]"
proof -
  from assms have n: "map fst f = [''Hari'', ''Kategori'', ''Penjualan'', ''Pengunjung'']"
    and c: "sample_columns (map snd f)"
    by (simp_all add: sample_part_def columns_def)
  from c obtain hs ks ps vs where
    cs: "map snd f = [StrCol hs, StrCol ks, IntCol ps, IntCol vs]" and
    rest: "length ks = length hs" "length ps = length hs" "length vs = length hs"
      "set hs \<subseteq> set [''Senin'', ''Selasa'', ''Rabu'', ''Kamis'', ''Jumat'', ''Sabtu'', ''Minggu'']"
      "set ks \<subseteq> set [''Makanan'', ''Minuman'']"
      "set ps \<subseteq> set [120, 150, 90, 170, 200, 220, 180]"
      "set vs \<subseteq> set [50, 60, 30, 80, 90, 120, 100]"
    by (rule sample_columns.elims(2)) simp
  have "f = zip (map fst f) (map snd f)" by (simp add: zip_map_fst_snd)
  then have "f = [(''Hari'', StrCol hs), (''Kategori'', StrCol ks), (''Penjualan'', IntCol ps), (''Pengunjung'', IntCol vs)]"
    unfolding n cs by simp
  with rest show ?thesis by blast
qed

lemma sample_part_sample: "sample_part load_sample_data"
  by (simp add: sample_part_def load_sample_data_def columns_def)

lemma set_take_mask: "set (take_mask m xs) \<subseteq> set xs"
  by (induction m xs rule: take_mask.induct) auto

lemma sample_part_mask:
  assumes "sample_part f" shows "sample_part (loc_mask f m)"
proof -
  from sample_partD [OF assms] obtain hs ks ps vs where
    f: "f = [(''Hari'', StrCol hs), (''Kategori'', StrCol ks), (''Penjualan'', IntCol ps), (''Pengunjung'', IntCol vs)]"
    and len: "length ks = length hs" "length ps = length hs" "length vs = length hs"
    and sub: "set hs \<subseteq> set [''Senin'', ''Selasa'', ''Rabu'', ''Kamis'', ''Jumat'', ''Sabtu'', ''Minggu'']"
      "set ks \<subseteq> set [''Makanan'', ''Minuman'']"
      "set ps \<subseteq> set [120, 150, 90, 170, 200, 220, 180]"
      "set vs \<subseteq> set [50, 60, 30, 80, 90, 120, 100]"
    by blast
  have l: "length (take_mask m ks) = length (take_mask m hs)"
    "length (take_mask m ps) = length (take_mask m hs)"
    "length (take_mask m vs) = length (take_mask m hs)"
    using len by (simp_all add: length_take_mask)
  have s: "set (take_mask m hs) \<subseteq> set [''Senin'', ''Selasa'', ''Rabu'', ''Kamis'', ''Jumat'', ''Sabtu'', ''Minggu'']"
      "set (take_mask m ks) \<subseteq> set [''Makanan'', ''Minuman'']"
      "set (take_mask m ps) \<subseteq> set [120, 150, 90, 170, 200, 220, 180]"
      "set (take_mask m vs) \<subseteq> set [50, 60, 30, 80, 90, 120, 100]"
    using sub set_take_mask [of m hs] set_take_mask [of m ks] set_take_mask [of m ps] set_take_mask [of m vs]
    by blast+
  show ?thesis
    unfolding f loc_mask_def sample_part_def columns_def using l s by simp
qed

lemma sample_part_filter:
  assumes "apply_filter load_sample_data days cats = Inr f" shows "sample_part f"
proof -
  have "''Hari'' \<in> set (columns load_sample_data)" by (simp add: load_sample_data_def columns_def)
  from apply_filter_shape [OF this, of days cats] assms obtain h where
    "f = loc_mask load_sample_data (isin h days) \<or> (\<exists>m. f = loc_mask (loc_mask load_sample_data (isin h days)) m)"
    by auto
  then show ?thesis
    by (auto intro: sample_part_mask sample_part_sample)
qed






lemma split_acc_no_sep: "d \<notin> set s \<Longrightarrow> split_acc d cur s = [cur @ s]"
  by (induction s arbitrary: cur) auto

lemma split_acc_sep:
  "d \<notin> set s \<Longrightarrow> split_acc d cur (s @ d # rest) = (cur @ s) # split_acc d [] rest"
  by (induction s arbitrary: cur) auto

lemma split_on_lines:
  "\<forall>l\<in>set ls. d \<notin> set l \<Longrightarrow> split_on d (concat (map (\<lambda>l. l @ [d]) ls)) = ls @ [[]]"
  unfolding split_on_def
  by (induction ls) (simp_all add: split_acc_sep)

lemma plain_field_no_comma: "plain_field s \<Longrightarrow> CHR '','' \<notin> set s"
  by (auto simp: plain_field_def list_all_iff)

lemma split_on_join:
  "list_all plain_field r \<Longrightarrow> r \<noteq> [] \<Longrightarrow> split_on (CHR '','') (join_comma r) = r"
  unfolding split_on_def
proof (induction r rule: join_comma.induct)
  case 1 then show ?case by simp
next
  case (2 f) then show ?case by (simp add: split_acc_no_sep plain_field_no_comma)
next
  case (3 f g fs)
  then show ?case using split_acc_sep [of "CHR '',''" f "[]" "join_comma (g # fs)"]
    by (simp add: plain_field_no_comma)
qed




lemma not_plain_cr: "\<not> plain_char (CHR 0x0D)"
  by (simp add: plain_char_def)

lemma not_plain_quote: "\<not> plain_char (CHR 0x22)"
  by (simp add: plain_char_def)

lemma not_needs_quote:
  assumes "plain_field s" shows "\<not> needs_quote s"
proof
  assume "needs_quote s"
  then obtain c where c: "c \<in> set s" "c = CHR '','' \<or> c = CHR 0x22 \<or> c = CHR 0x0A \<or> c = CHR 0x0D"
    unfolding needs_quote_def list_ex_iff by blast
  from assms c(1) have "plain_char c" "c \<noteq> CHR '',''" "c \<noteq> CHR 0x0A"
    unfolding plain_field_def list_all_iff by blast+
  with c(2) not_plain_cr not_plain_quote show False by blast
qed

lemma plain_field_nonempty: "plain_field s \<Longrightarrow> s \<noteq> []"
  unfolding plain_field_def by blast

lemma csv_line_plain:
  assumes "list_all plain_field r" shows "csv_line r = join_comma r @ [CHR 0x0A]"
proof -
  have "\<forall>s\<in>set r. quote_field s = s"
    using assms unfolding list_all_iff quote_field_def by (simp add: not_needs_quote)
  then have "map quote_field r = r" by (simp add: map_idI)
  moreover have "r \<noteq> [[]]" using assms plain_field_nonempty by fastforce
  ultimately show ?thesis by (simp add: csv_line_def)
qed


lemma plain_comma: "plain_char (CHR '','')"
  by (simp add: plain_char_def)

lemma plain_newline: "plain_char (CHR 0x0A)"
  by (simp add: plain_char_def)

lemma join_comma_set:
  "set (join_comma r) \<subseteq> insert (CHR '','') (\<Union> (set ` set r))"
  by (induction r rule: join_comma.induct) auto

lemma plain_field_chars:
  "plain_field s \<Longrightarrow> c \<in> set s \<Longrightarrow> plain_char c \<and> c \<noteq> CHR 0x0A \<and> c \<noteq> CHR '' ''"
  unfolding plain_field_def list_all_iff by blast

lemma join_comma_chars:
  assumes "list_all plain_field r" and "c \<in> set (join_comma r)"
  shows "plain_char c \<and> c \<noteq> CHR 0x0A \<and> c \<noteq> CHR '' ''"
proof -
  from assms(2) join_comma_set [of r] have "c = CHR '','' \<or> (\<exists>s\<in>set r. c \<in> set s)" by auto
  then show ?thesis
  proof
    assume "c = CHR '',''"
    then show ?thesis by (simp add: plain_comma)
  next
    assume "\<exists>s\<in>set r. c \<in> set s"
    then obtain s where "s \<in> set r" "c \<in> set s" by blast
    with assms(1) show ?thesis using plain_field_chars [of s c] by (simp add: list_all_iff)
  qed
qed

lemma join_comma_nonempty: "list_all plain_field r \<Longrightarrow> r \<noteq> [] \<Longrightarrow> join_comma r \<noteq> []"
  by (induction r rule: join_comma.induct) (simp_all add: plain_field_nonempty)

lemma read_csv_plain:
  assumes names: "list_all plain_field names" "names \<noteq> []" "distinct names"
    and recs: "\<forall>r\<in>set recs. list_all plain_field r \<and> length r = length names"
  shows "read_csv (concat (map (\<lambda>l. l @ [CHR 0x0A]) (join_comma names # map join_comma recs))) =
         (case collect (map (\<lambda>j. infer_column (map (\<lambda>r. r ! j) recs)) [0..<length names]) of
            Inl e \<Rightarrow> Inl e
          | Inr cols \<Rightarrow> Inr (zip names cols))"
proof -
  define ls where "ls = join_comma names # map join_comma recs"
  define t where "t = concat (map (\<lambda>l. l @ [CHR 0x0A]) ls)"
  have rows: "\<forall>r\<in>set (names # recs). list_all plain_field r \<and> r \<noteq> []"
    using names recs by auto
  have lines: "\<forall>l\<in>set ls. l \<noteq> [] \<and> (\<forall>c\<in>set l. plain_char c \<and> c \<noteq> CHR 0x0A \<and> c \<noteq> CHR '' '')"
    unfolding ls_def using rows join_comma_chars join_comma_nonempty by (auto simp del: join_comma.simps)
  have a: "list_all plain_char t"
    unfolding t_def list_all_iff using lines plain_newline by auto
  have "\<forall>l\<in>set ls. CHR 0x0A \<notin> set l" using lines by blast
  then have b: "split_on (CHR 0x0A) t = ls @ [[]]"
    unfolding t_def by (rule split_on_lines)
  have c: "filter (\<lambda>l. l \<noteq> []) (ls @ [[]]) = ls"
    using lines by (simp add: filter_id_conv)
  have d: "\<not> list_ex (list_all (\<lambda>c. c = CHR '' '')) ls"
  proof
    assume "list_ex (list_all (\<lambda>c. c = CHR '' '')) ls"
    then obtain l where l: "l \<in> set ls" "list_all (\<lambda>c. c = CHR '' '') l" by (auto simp: list_ex_iff)
    with lines obtain c where "c \<in> set l" by (cases l) auto
    with l lines show False by (auto simp: list_all_iff)
  qed
  have f1: "split_on (CHR '','') (join_comma names) = names"
    using names by (simp add: split_on_join)
  have f2: "map (split_on (CHR '','')) (map join_comma recs) = recs"
    using recs rows by (simp add: map_idI split_on_join)
  have g: "\<not> (case recs of [] \<Rightarrow> False
                | r # rs \<Rightarrow> length r \<le> length names \<and> list_ex (\<lambda>r'. length names < length r') rs)"
    using recs by (auto simp: list_ex_iff split: list.splits)
  have h: "list_all (\<lambda>r. length r = length names) recs"
    using recs by (simp add: list_all_iff)
  have i: "[] \<notin> set names" using names(1) plain_field_nonempty by (auto simp: list_all_iff)
  have "read_csv t =
         (case collect (map (\<lambda>j. infer_column (map (\<lambda>r. r ! j) recs)) [0..<length names]) of
            Inl e \<Rightarrow> Inl e
          | Inr cols \<Rightarrow> Inr (zip names cols))"
    unfolding read_csv_def Let_def b c
    using a d g h i names(3) unfolding ls_def list.case f1 f2 by simp
  then show ?thesis unfolding t_def ls_def .
qed


lemma those_all_none: "fs \<noteq> [] \<Longrightarrow> \<forall>f\<in>set fs. g f = None \<Longrightarrow> those (map g fs) = None"
  by (cases fs) simp_all

lemma those_all_some: "\<forall>x\<in>set xs. g (h x) = Some x \<Longrightarrow> those (map g (map h xs)) = Some xs"
  by (induction xs) simp_all

lemma infer_text_column:
  assumes "fs \<noteq> []" and "\<forall>f\<in>set fs. parse_int64 f = None \<and> f \<notin> set na_values \<and> is_text f"
  shows "infer_column fs = Inr (StrCol fs)"
proof -
  have "those (map parse_int64 fs) = None" using assms by (simp add: those_all_none)
  moreover have "list_all (\<lambda>f. f \<notin> set na_values) fs" using assms(2) by (simp add: list_all_iff)
  moreover have "list_ex is_text fs" using assms by (cases fs) (auto simp: list_ex_iff)
  ultimately show ?thesis using assms(1) by (simp add: infer_column_def)
qed

lemma infer_int_column:
  assumes "ps \<noteq> []" and "\<forall>p\<in>set ps. parse_int64 (str_int (sint p)) = Some p"
  shows "infer_column (map (\<lambda>p. str_int (sint p)) ps) = Inr (IntCol ps)"
  using assms those_all_some [of ps parse_int64 "\<lambda>p. str_int (sint p)"]
  by (simp add: infer_column_def)

lemma sample_days_text:
  "\<forall>h\<in>set [''Senin'', ''Selasa'', ''Rabu'', ''Kamis'', ''Jumat'', ''Sabtu'', ''Minggu''].
     plain_field h \<and> parse_int64 h = None \<and> h \<notin> set na_values \<and> is_text h"
  by (simp add: plain_field_def plain_char_def parse_int64_def parse_int_def is_digit_def
      na_values_def is_text_def is_alpha_def lower_def)

lemma sample_categories_text:
  "\<forall>h\<in>set [''Makanan'', ''Minuman''].
     plain_field h \<and> parse_int64 h = None \<and> h \<notin> set na_values \<and> is_text h"
  by (simp add: plain_field_def plain_char_def parse_int64_def parse_int_def is_digit_def
      na_values_def is_text_def is_alpha_def lower_def)

lemma sample_sales_str:
  "map (\<lambda>p. str_int (sint p)) [120, 150, 90, 170, 200, 220, 180 :: int64] =
     [''120'', ''150'', ''90'', ''170'', ''200'', ''220'', ''180'']"
  by code_simp

lemma sample_visitors_str:
  "map (\<lambda>p. str_int (sint p)) [50, 60, 30, 80, 90, 120, 100 :: int64] =
     [''50'', ''60'', ''30'', ''80'', ''90'', ''120'', ''100'']"
  by code_simp

lemma sample_sales_int:
  "\<forall>p\<in>set [120, 150, 90, 170, 200, 220, 180 :: int64].
     plain_field (str_int (sint p)) \<and> parse_int64 (str_int (sint p)) = Some p"
  using sample_sales_str
  by (simp add: plain_field_def plain_char_def parse_int64_def parse_int_def is_digit_def digits_val_def)

lemma sample_visitors_int:
  "\<forall>p\<in>set [50, 60, 30, 80, 90, 120, 100 :: int64].
     plain_field (str_int (sint p)) \<and> parse_int64 (str_int (sint p)) = Some p"
  using sample_visitors_str
  by (simp add: plain_field_def plain_char_def parse_int64_def parse_int_def is_digit_def digits_val_def)

lemma sample_names:
  "list_all plain_field [''Hari'', ''Kategori'', ''Penjualan'', ''Pengunjung'']"
  by (simp add: plain_field_def plain_char_def)

lemma upt_4: "[0..<4] = [0, 1, 2, Suc 2]"
  by (simp add: upt_rec)


lemma sample_records:
  assumes "length hs = length ks" and "length ks = length ps" and "length ps = length vs"
  shows "map (\<lambda>r. r ! 0) (map (map (\<lambda>(n, v). str_cell v))
           (rows_of [(n1, StrCol hs), (n2, StrCol ks), (n3, IntCol ps), (n4, IntCol vs)])) = hs \<and>
         map (\<lambda>r. r ! 1) (map (map (\<lambda>(n, v). str_cell v))
           (rows_of [(n1, StrCol hs), (n2, StrCol ks), (n3, IntCol ps), (n4, IntCol vs)])) = ks \<and>
         map (\<lambda>r. r ! 2) (map (map (\<lambda>(n, v). str_cell v))
           (rows_of [(n1, StrCol hs), (n2, StrCol ks), (n3, IntCol ps), (n4, IntCol vs)])) =
           map (\<lambda>p. str_int (sint p)) ps \<and>
         map (\<lambda>r. r ! Suc 2) (map (map (\<lambda>(n, v). str_cell v))
           (rows_of [(n1, StrCol hs), (n2, StrCol ks), (n3, IntCol ps), (n4, IntCol vs)])) =
           map (\<lambda>p. str_int (sint p)) vs \<and>
         (\<forall>r\<in>set (map (map (\<lambda>(n, v). str_cell v))
           (rows_of [(n1, StrCol hs), (n2, StrCol ks), (n3, IntCol ps), (n4, IntCol vs)])).
            length r = 4 \<and>
            set r \<subseteq> set hs \<union> set ks \<union> (\<lambda>p. str_int (sint p)) ` set ps \<union> (\<lambda>p. str_int (sint p)) ` set vs)"
  using assms
proof (induction hs ks ps vs rule: list_induct4)
  case Nil show ?case by simp
next
  case (Cons h hs k ks p ps v vs)
  then show ?case by (simp add: subset_iff)
qed


text \<open>The round trip on any table cut from the sample.\<close>

lemma roundtrip_sample_part:
  assumes "sample_part f"
  shows "\<exists>g. read_csv (to_csv f) = Inr g \<and> columns g = columns f \<and> rows_of g = rows_of f \<and>
             (rows_of f \<noteq> [] \<longrightarrow> g = f)"
proof -
  from sample_partD [OF assms] obtain hs ks ps vs where
    f: "f = [(''Hari'', StrCol hs), (''Kategori'', StrCol ks), (''Penjualan'', IntCol ps), (''Pengunjung'', IntCol vs)]"
    and len: "length ks = length hs" "length ps = length hs" "length vs = length hs"
    and sub: "set hs \<subseteq> set [''Senin'', ''Selasa'', ''Rabu'', ''Kamis'', ''Jumat'', ''Sabtu'', ''Minggu'']"
      "set ks \<subseteq> set [''Makanan'', ''Minuman'']"
      "set ps \<subseteq> set [120, 150, 90, 170, 200, 220, 180]"
      "set vs \<subseteq> set [50, 60, 30, 80, 90, 120, 100]"
    by blast
  define names where "names = [''Hari'', ''Kategori'', ''Penjualan'', ''Pengunjung'']"
  define recs where "recs = map (map (\<lambda>(n, v). str_cell v)) (rows_of f)"
  have names: "list_all plain_field names" "names \<noteq> []" "distinct names" "length names = 4"
    unfolding names_def using sample_names by simp_all
  have hs: "\<forall>h\<in>set hs. plain_field h \<and> parse_int64 h = None \<and> h \<notin> set na_values \<and> is_text h"
    using sub(1) sample_days_text by blast
  have ks: "\<forall>h\<in>set ks. plain_field h \<and> parse_int64 h = None \<and> h \<notin> set na_values \<and> is_text h"
    using sub(2) sample_categories_text by blast
  have ps: "\<forall>p\<in>set ps. plain_field (str_int (sint p)) \<and> parse_int64 (str_int (sint p)) = Some p"
    using sub(3) sample_sales_int by blast
  have vs: "\<forall>p\<in>set vs. plain_field (str_int (sint p)) \<and> parse_int64 (str_int (sint p)) = Some p"
    using sub(4) sample_visitors_int by blast
  from sample_records [of hs ks ps vs "''Hari''" "''Kategori''" "''Penjualan''" "''Pengunjung''"] len
  have c0: "map (\<lambda>r. r ! 0) recs = hs" and c1: "map (\<lambda>r. r ! 1) recs = ks"
    and c2: "map (\<lambda>r. r ! 2) recs = map (\<lambda>p. str_int (sint p)) ps"
    and c3: "map (\<lambda>r. r ! Suc 2) recs = map (\<lambda>p. str_int (sint p)) vs"
    and shape: "\<forall>r\<in>set recs. length r = 4 \<and>
        set r \<subseteq> set hs \<union> set ks \<union> (\<lambda>p. str_int (sint p)) ` set ps \<union> (\<lambda>p. str_int (sint p)) ` set vs"
    unfolding recs_def f by simp_all
  have plain: "\<forall>r\<in>set recs. list_all plain_field r \<and> length r = length names"
  proof
    fix r assume r: "r \<in> set recs"
    have "plain_field s" if "s \<in> set r" for s
      using that shape r hs ks ps vs by blast
    with shape r names(4) show "list_all plain_field r \<and> length r = length names"
      by (simp add: list_all_iff)
  qed
  have head: "csv_line (columns f) = join_comma names @ [CHR 0x0A]"
    using csv_line_plain [OF names(1)] by (simp add: f columns_def names_def)
  have "csv_line (map (\<lambda>(n, v). str_cell v) r) = join_comma (map (\<lambda>(n, v). str_cell v) r) @ [CHR 0x0A]"
    if "r \<in> set (rows_of f)" for r
    using that plain by (intro csv_line_plain) (simp add: recs_def)
  then have body: "map (\<lambda>r. csv_line (map (\<lambda>(n, v). str_cell v) r)) (rows_of f) =
          map (\<lambda>l. l @ [CHR 0x0A]) (map join_comma recs)"
    by (simp add: recs_def)
  have to: "to_csv f = concat (map (\<lambda>l. l @ [CHR 0x0A]) (join_comma names # map join_comma recs))"
    unfolding to_csv_def head body by simp
  have rd: "read_csv (to_csv f) =
         (case collect [infer_column (map (\<lambda>r. r ! 0) recs), infer_column (map (\<lambda>r. r ! 1) recs),
                        infer_column (map (\<lambda>r. r ! 2) recs), infer_column (map (\<lambda>r. r ! Suc 2) recs)] of
            Inl e \<Rightarrow> Inl e
          | Inr cols \<Rightarrow> Inr (zip names cols))"
    unfolding to read_csv_plain [OF names(1-3) plain] names(4) upt_4 by simp
  show ?thesis
  proof (cases "hs = []")
    case True
    with len have e: "ks = []" "ps = []" "vs = []" by simp_all
    have "read_csv (to_csv f) =
      Inr [(''Hari'', StrCol []), (''Kategori'', StrCol []), (''Penjualan'', StrCol []), (''Pengunjung'', StrCol [])]"
      unfolding rd c0 c1 c2 c3 True e by (simp add: infer_column_def names_def)
    moreover have "rows_of f = []" by (simp add: f True e)
    ultimately show ?thesis by (simp add: f columns_def)
  next
    case False
    with len have ne: "ks \<noteq> []" "ps \<noteq> []" "vs \<noteq> []" by auto
    have i0: "infer_column hs = Inr (StrCol hs)" using False hs by (simp add: infer_text_column)
    have i1: "infer_column ks = Inr (StrCol ks)" using ne(1) ks by (simp add: infer_text_column)
    have i2: "infer_column (map (\<lambda>p. str_int (sint p)) ps) = Inr (IntCol ps)"
      using ne(2) ps by (simp add: infer_int_column)
    have i3: "infer_column (map (\<lambda>p. str_int (sint p)) vs) = Inr (IntCol vs)"
      using ne(3) vs by (simp add: infer_int_column)
    have "read_csv (to_csv f) = Inr f"
      unfolding rd c0 c1 c2 c3 i0 i1 i2 i3 by (simp add: names_def f)
    then show ?thesis by simp
  qed
qed

lemma dashboard_sample_total:
  assumes "apply_filter load_sample_data days cats = Inr f"
  shows "\<exists>p. dashboard load_sample_data days cats = Inr p \<and> filtered_df p = f \<and> csv p = to_csv f"
proof -
  have c: "''Hari'' \<in> set (columns load_sample_data)" "''Penjualan'' \<in> set (columns load_sample_data)"
    by (simp_all add: load_sample_data_def columns_def)
  from options_total [OF c(1)] obtain d k where o: "day_options load_sample_data = Inr d"
    "category_options load_sample_data = Inr k" by blast
  from sample_partD [OF sample_part_filter [OF assms]] obtain hs ks ps vs where
    f: "f = [(''Hari'', StrCol hs), (''Kategori'', StrCol ks), (''Penjualan'', IntCol ps), (''Pengunjung'', IntCol vs)]"
    by blast
  have "\<exists>x. kpi_section f = Inr x" by (simp add: f kpi_section_def getitem_def)
  then obtain x where x: "kpi_section f = Inr x" ..
  have "columns f = columns load_sample_data" by (simp add: f load_sample_data_def columns_def)
  from pie_section_total [OF this c(2)] obtain t where t: "pie_section load_sample_data f = Inr t" by blast
  show ?thesis by (simp add: dashboard_def o assms x t)
qed

text \<open>
  C8. For the built-in sample and any selection, the run completes, its download is the
  CSV export of the filtered table (the header line and one line per filtered row), and
  reading that text back gives a table with the same columns and the same rows as the
  filtered table; when at least one row is kept it is the filtered table itself. (When no
  row is kept, the table read back has no rows either, and its four columns have dtype
  \<open>object\<close>, there being no value to infer \<open>int64\<close> from.)
\<close>

theorem export_roundtrip:
  "\<exists>p g. dashboard load_sample_data days cats = Inr p \<and>
          csv p = to_csv (filtered_df p) \<and>
          read_csv (csv p) = Inr g \<and>
          columns g = columns (filtered_df p) \<and> rows_of g = rows_of (filtered_df p) \<and>
          (rows_of (filtered_df p) \<noteq> [] \<longrightarrow> g = filtered_df p)"
proof -
  have "''Hari'' \<in> set (columns load_sample_data)" by (simp add: load_sample_data_def columns_def)
  from apply_filter_columns [OF this] obtain f where f: "apply_filter load_sample_data days cats = Inr f"
    by blast
  from dashboard_sample_total [OF f] obtain p where
    p: "dashboard load_sample_data days cats = Inr p" "filtered_df p = f" "csv p = to_csv f" by blast
  from roundtrip_sample_part [OF sample_part_filter [OF f]] obtain g where
    "read_csv (to_csv f) = Inr g" "columns g = columns f" "rows_of g = rows_of f" "rows_of f \<noteq> [] \<longrightarrow> g = f"
    by blast
  with p show ?thesis by auto
qed

lemma filtered_of_run:
  "dashboard df days cats = Inr p \<Longrightarrow> apply_filter df days cats = Inr (filtered_df p)"
  by (auto simp: dashboard_def split: sum.splits)

theorem export_roundtrip_witness:
  "\<exists>p. dashboard load_sample_data [S ''Selasa''] [S ''Minuman''] = Inr p \<and>
        filtered_df p = [(''Hari'', StrCol [''Selasa'']), (''Kategori'', StrCol [''Minuman'']),
                         (''Penjualan'', IntCol [150]), (''Pengunjung'', IntCol [60])] \<and>
        rows_of (filtered_df p) \<noteq> [] \<and>
        csv p = to_csv (filtered_df p) \<and>
        read_csv (csv p) = Inr (filtered_df p)"
proof -
  from export_roundtrip [of "[S ''Selasa'']" "[S ''Minuman'']"] obtain p g where
    p: "dashboard load_sample_data [S ''Selasa''] [S ''Minuman''] = Inr p"
    and c: "csv p = to_csv (filtered_df p)" and r: "read_csv (csv p) = Inr g"
    and g: "rows_of (filtered_df p) \<noteq> [] \<longrightarrow> g = filtered_df p"
    by blast
  have "apply_filter load_sample_data [S ''Selasa''] [S ''Minuman''] =
      Inr [(''Hari'', StrCol [''Selasa'']), (''Kategori'', StrCol [''Minuman'']),
           (''Penjualan'', IntCol [150]), (''Pengunjung'', IntCol [60])]"
    by (simp add: apply_filter_def load_sample_data_def getitem_def columns_def loc_mask_def isin_def)
  with filtered_of_run [OF p] have f: "filtered_df p =
      [(''Hari'', StrCol [''Selasa'']), (''Kategori'', StrCol [''Minuman'']),
       (''Penjualan'', IntCol [150]), (''Pengunjung'', IntCol [60])]" by simp
  then have n: "rows_of (filtered_df p) \<noteq> []" by simp
  with g r have "read_csv (csv p) = Inr (filtered_df p)" by simp
  with p f n c show ?thesis by blast
qed

subsection \<open>The loaded table is never changed\<close>

lemma exec_filter_pure:
  assumes "df < next_ref s"
  shows "case exec_filter s df days cats of
           Inl e \<Rightarrow> apply_filter (obj s df) days cats = Inl e
         | Inr (f, s') \<Rightarrow>
             apply_filter (obj s df) days cats = Inr (obj s' f) \<and>
             (\<forall>r<next_ref s. obj s' r = obj s r) \<and> next_ref s \<le> next_ref s'"
  using assms
  by (auto simp: exec_filter_def apply_filter_def new_object_def Let_def split: sum.splits)

lemma exec_run_pure:
  assumes "df < next_ref s"
  shows "case exec_run s df days cats of
           Inl e \<Rightarrow> dashboard (obj s df) days cats = Inl e
         | Inr (p, s') \<Rightarrow>
             dashboard (obj s df) days cats = Inr p \<and>
             (\<forall>r<next_ref s. obj s' r = obj s r) \<and> next_ref s \<le> next_ref s'"
proof (cases "exec_filter s df days cats")
  case (Inl e)
  with exec_filter_pure [OF assms, of days cats] show ?thesis
    by (simp add: exec_run_def dashboard_def split: sum.splits)
next
  case (Inr r)
  obtain f s' where r: "r = (f, s')" by (cases r)
  from exec_filter_pure [OF assms, of days cats] Inr r
  have a: "apply_filter (obj s df) days cats = Inr (obj s' f)"
    and fr: "\<forall>r<next_ref s. obj s' r = obj s r" "next_ref s \<le> next_ref s'" by simp_all
  from fr(1) assms have d: "obj s' df = obj s df" by simp
  show ?thesis
    using fr by (simp add: exec_run_def dashboard_def Inr r a d split: sum.splits)
qed

lemma exec_run_page: "df < next_ref s \<Longrightarrow> map_sum id fst (exec_run s df days cats) = dashboard (obj s df) days cats"
  using exec_run_pure [of df s days cats]
  by (cases "exec_run s df days cats") (auto split: sum.splits)

lemma exec_script_page: "map_sum id fst (exec_script s u days cats) = script u days cats"
proof (cases "load_data u")
  case (Inl e)
  then show ?thesis by (simp add: exec_script_def exec_load_def script_def)
next
  case (Inr d)
  have "map_sum id fst (exec_run (snd (new_object d s)) (fst (new_object d s)) days cats) =
        dashboard (obj (snd (new_object d s)) (fst (new_object d s))) days cats"
    by (rule exec_run_page) (simp add: new_object_def)
  then show ?thesis
    by (simp add: exec_script_def exec_load_def script_def Inr new_object_def)
qed

lemma dashboard_sample_returns: "\<exists>q. dashboard load_sample_data days cats = Inr q"
proof -
  have "''Hari'' \<in> set (columns load_sample_data)" by (simp add: load_sample_data_def columns_def)
  from apply_filter_columns [OF this] obtain f where "apply_filter load_sample_data days cats = Inr f"
    by blast
  from dashboard_sample_total [OF this] show ?thesis by blast
qed

text \<open>
  C9. A run that completes leaves the object of the loaded table as it was, rows and
  columns, and every other object that existed before it; it only adds new objects. The
  page it returns is the page computed from the loaded table. A later run on the store it
  leaves behind, whether it uses the same loaded object again or loads the data anew,
  computes its page from the full table and its own selection, whatever the earlier run
  had selected.
\<close>

theorem dataset_not_mutated:
  assumes "df < next_ref s" and "exec_run s df days cats = Inr (p, s')"
  shows "obj s' df = obj s df \<and> rows_of (obj s' df) = rows_of (obj s df) \<and>
         columns (obj s' df) = columns (obj s df) \<and>
         (\<forall>r<next_ref s. obj s' r = obj s r) \<and>
         dashboard (obj s df) days cats = Inr p \<and>
         map_sum id fst (exec_run s' df days' cats') = dashboard (obj s df) days' cats' \<and>
         map_sum id fst (exec_script s' u days' cats') = script u days' cats'"
proof -
  from exec_run_pure [OF assms(1), of days cats] assms(2)
  have p: "dashboard (obj s df) days cats = Inr p"
    and fr: "\<forall>r<next_ref s. obj s' r = obj s r" "next_ref s \<le> next_ref s'" by simp_all
  from fr assms(1) have d: "obj s' df = obj s df" and v: "df < next_ref s'" by simp_all
  from exec_run_page [OF v, of days' cats'] d
  have "map_sum id fst (exec_run s' df days' cats') = dashboard (obj s df) days' cats'" by simp
  with p fr d show ?thesis by (simp add: exec_script_page)
qed

theorem dataset_not_mutated_witness:
  "(0::nat) < next_ref \<lparr>obj = (\<lambda>r. load_sample_data), next_ref = 1\<rparr> \<and>
   (\<exists>p s'. exec_run \<lparr>obj = (\<lambda>r. load_sample_data), next_ref = 1\<rparr> 0 [S ''Selasa''] [S ''Minuman''] = Inr (p, s') \<and>
      obj s' 0 = load_sample_data \<and>
      rows_of (filtered_df p) = [[(''Hari'', S ''Selasa''), (''Kategori'', S ''Minuman''), (''Penjualan'', I 150), (''Pengunjung'', I 60)]] \<and>
      map_sum id (\<lambda>x. rows_of (filtered_df (fst x))) (exec_run s' 0 [S ''Rabu''] [S ''Makanan'']) =
        Inr [[(''Hari'', S ''Rabu''), (''Kategori'', S ''Makanan''), (''Penjualan'', I 90), (''Pengunjung'', I 30)]])"
proof -
  let ?s = "\<lparr>obj = (\<lambda>r. load_sample_data), next_ref = 1\<rparr>"
  have v: "(0::nat) < next_ref ?s" by simp
  have "\<exists>q. dashboard load_sample_data [S ''Selasa''] [S ''Minuman''] = Inr q"
    by (rule dashboard_sample_returns)
  then obtain q where q: "dashboard load_sample_data [S ''Selasa''] [S ''Minuman''] = Inr q" ..
  from exec_run_page [OF v, of "[S ''Selasa'']" "[S ''Minuman'']"] q
  obtain p s' where r: "exec_run ?s 0 [S ''Selasa''] [S ''Minuman''] = Inr (p, s')"
    by (cases "exec_run ?s 0 [S ''Selasa''] [S ''Minuman'']") auto
  from dataset_not_mutated [OF v r, of "[S ''Rabu'']" "[S ''Makanan'']"]
  have d: "obj s' 0 = load_sample_data" and p: "dashboard load_sample_data [S ''Selasa''] [S ''Minuman''] = Inr p"
    and n: "map_sum id fst (exec_run s' 0 [S ''Rabu''] [S ''Makanan'']) = dashboard load_sample_data [S ''Rabu''] [S ''Makanan'']"
    by simp_all
  have f1: "apply_filter load_sample_data [S ''Selasa''] [S ''Minuman''] =
      Inr [(''Hari'', StrCol [''Selasa'']), (''Kategori'', StrCol [''Minuman'']),
           (''Penjualan'', IntCol [150]), (''Pengunjung'', IntCol [60])]"
    by (simp add: apply_filter_def load_sample_data_def getitem_def columns_def loc_mask_def isin_def)
  have f2: "apply_filter load_sample_data [S ''Rabu''] [S ''Makanan''] =
      Inr [(''Hari'', StrCol [''Rabu'']), (''Kategori'', StrCol [''Makanan'']),
           (''Penjualan'', IntCol [90]), (''Pengunjung'', IntCol [30])]"
    by (simp add: apply_filter_def load_sample_data_def getitem_def columns_def loc_mask_def isin_def)
  from filtered_of_run [OF p] f1 have "filtered_df p =
      [(''Hari'', StrCol [''Selasa'']), (''Kategori'', StrCol [''Minuman'']),
       (''Penjualan'', IntCol [150]), (''Pengunjung'', IntCol [60])]" by simp
  then have r1: "rows_of (filtered_df p) =
      [[(''Hari'', S ''Selasa''), (''Kategori'', S ''Minuman''), (''Penjualan'', I 150), (''Pengunjung'', I 60)]]"
    by simp
  have "\<exists>q. dashboard load_sample_data [S ''Rabu''] [S ''Makanan''] = Inr q"
    by (rule dashboard_sample_returns)
  then obtain q2 where q2: "dashboard load_sample_data [S ''Rabu''] [S ''Makanan''] = Inr q2" ..
  from filtered_of_run [OF q2] f2 have "filtered_df q2 =
      [(''Hari'', StrCol [''Rabu'']), (''Kategori'', StrCol [''Makanan'']),
       (''Penjualan'', IntCol [90]), (''Pengunjung'', IntCol [30])]" by simp
  then have "rows_of (filtered_df q2) =
      [[(''Hari'', S ''Rabu''), (''Kategori'', S ''Makanan''), (''Penjualan'', I 90), (''Pengunjung'', I 30)]]"
    by simp
  with n q2 have r2: "map_sum id (\<lambda>x. rows_of (filtered_df (fst x))) (exec_run s' 0 [S ''Rabu''] [S ''Makanan'']) =
        Inr [[(''Hari'', S ''Rabu''), (''Kategori'', S ''Makanan''), (''Penjualan'', I 90), (''Pengunjung'', I 30)]]"
    by (cases "exec_run s' 0 [S ''Rabu''] [S ''Makanan'']") auto
  from v r d r1 r2 show ?thesis by blast
qed

end
